theory Spec2Isabelle
  imports Main "HOL-Library.Sublist" "HOL-Library.Multiset"
begin

section \<open>JavaScript values and records\<close>

text \<open>
  The values a Dataverse record attribute can hold, as far as the resolver looks at them;
  arguments and results of method calls are values of this type too. Numbers are
  integers; a \<open>Date\<close> object is represented by the string it was constructed from
  (\<open>new Date(s)\<close>). \<open>JInherited name\<close> is what every object inherits under that name
  from \<open>Object.prototype\<close>: a function, and for \<open>__proto__\<close> the prototype object
  itself. Strings are lists of characters below 256.
\<close>

datatype jsval =
    JUndefined
  | JNull
  | JBool bool
  | JNum int
  | JStr string
  | JDate string
  | JInherited string

text \<open>
  A record (\<open>Record<string, any>\<close>) is a JSON object: attribute names, each once, with
  their values. The functions of \<open>Object.prototype\<close> are never attributes of its own.
\<close>

type_synonym jsrecord = "(string \<times> jsval) list"

text \<open>The property names of \<open>Object.prototype\<close>, which a record inherits as a plain object.\<close>

definition objectPrototypeNames :: "string list" where
  "objectPrototypeNames =
     [''constructor'', ''hasOwnProperty'', ''isPrototypeOf'', ''propertyIsEnumerable'',
      ''toLocaleString'', ''toString'', ''valueOf'', ''__proto__'', ''__defineGetter__'',
      ''__defineSetter__'', ''__lookupGetter__'', ''__lookupSetter__'']"

text \<open>
  \<open>rec[name]\<close>: the record's own attribute of that name; without one, what the record
  inherits under the name; and \<open>undefined\<close> when there is neither.
\<close>

definition getAttr :: "jsrecord \<Rightarrow> string \<Rightarrow> jsval" where
  "getAttr r name =
     (case map_of r name of
        Some v \<Rightarrow> v
      | None \<Rightarrow> if name \<in> set objectPrototypeNames then JInherited name else JUndefined)"

text \<open>JavaScript truthiness, as used by \<open>!x\<close> and \<open>x && y\<close>.\<close>

fun truthy :: "jsval \<Rightarrow> bool" where
  "truthy JUndefined = False"
| "truthy JNull = False"
| "truthy (JBool b) = b"
| "truthy (JNum n) = (n \<noteq> 0)"
| "truthy (JStr s) = (s \<noteq> [])"
| "truthy (JDate s) = True"
| "truthy (JInherited name) = True"


text \<open>\<open>a ?? b\<close>: the right operand replaces \<open>null\<close> and \<open>undefined\<close> only.\<close>

fun nullish :: "jsval \<Rightarrow> jsval \<Rightarrow> jsval" where
  "nullish JUndefined d = d"
| "nullish JNull d = d"
| "nullish v d = v"

subsection \<open>Strings\<close>

fun digitsOf :: "nat \<Rightarrow> string" where
  "digitsOf n = (if n < 10 then [''0123456789'' ! n]
                 else digitsOf (n div 10) @ [''0123456789'' ! (n mod 10)])"

definition showInt :: "int \<Rightarrow> string" where
  "showInt i = (if i < 0 then CHR ''-'' # digitsOf (nat (- i)) else digitsOf (nat i))"

text \<open>\<open>s.split(c)\<close> for a one-character separator: always at least one piece.\<close>

fun splitOn :: "char \<Rightarrow> string \<Rightarrow> string list" where
  "splitOn c [] = [[]]"
| "splitOn c (x # xs) =
     (if x = c then [] # splitOn c xs
      else (case splitOn c xs of [] \<Rightarrow> [[x]] | w # ws \<Rightarrow> (x # w) # ws))"

definition isUpper :: "char \<Rightarrow> bool" where
  "isUpper c = (65 \<le> (of_char c :: nat) \<and> (of_char c :: nat) \<le> 90)"

definition isLower :: "char \<Rightarrow> bool" where
  "isLower c = (97 \<le> (of_char c :: nat) \<and> (of_char c :: nat) \<le> 122)"

definition isDigit :: "char \<Rightarrow> bool" where
  "isDigit c = (48 \<le> (of_char c :: nat) \<and> (of_char c :: nat) \<le> 57)"

text \<open>\<open>s.toLowerCase()\<close> on the ASCII letters: the upper-case letters are 0x41 to 0x5A, and
  bit 5 makes them lower case.\<close>

definition lowerChar :: "char \<Rightarrow> char" where
  "lowerChar c =
     (if isUpper c
      then (case c of Char b0 b1 b2 b3 b4 b5 b6 b7 \<Rightarrow> Char b0 b1 b2 b3 b4 True b6 b7)
      else c)"

definition toLowerCase :: "string \<Rightarrow> string" where
  "toLowerCase s = map lowerChar s"

text \<open>\<open>\s\<close> of a regular expression, on characters below 256.\<close>

definition isSpace :: "char \<Rightarrow> bool" where
  "isSpace c = (c \<in> set [CHR 0x09, CHR 0x0A, CHR 0x0B, CHR 0x0C, CHR 0x0D, CHR 0x20, CHR 0xA0])"

text \<open>A line terminator: what \<open>.\<close> of a regular expression does not match.\<close>

definition isLineTerminator :: "char \<Rightarrow> bool" where
  "isLineTerminator c = (c = CHR 0x0A \<or> c = CHR 0x0D)"

text \<open>\<open>s.trim()\<close>.\<close>

definition trim :: "string \<Rightarrow> string" where
  "trim s = rev (dropWhile isSpace (rev (dropWhile isSpace s)))"

subsection \<open>\<open>String.prototype.replace\<close> with a string pattern\<close>

text \<open>
  \<open>text.replace(pat, repl)\<close> with two strings replaces the first occurrence of \<open>pat\<close>
  only, and the replacement is a template: \<open>$$\<close> stands for a dollar sign, \<open>$&\<close> for the
  matched text, \<open>$`\<close> for the text before the match and \<open>$'\<close> for the text after it. A
  string pattern has no capture groups, so \<open>$1\<close> and \<open>$<name>\<close> are kept as they are.
\<close>

fun findFirst :: "string \<Rightarrow> string \<Rightarrow> (string \<times> string) option" where
  "findFirst pat [] = (if pat = [] then Some ([], []) else None)"
| "findFirst pat (c # cs) =
     (if prefix pat (c # cs) then Some ([], drop (length pat) (c # cs))
      else (case findFirst pat cs of None \<Rightarrow> None | Some (b, a) \<Rightarrow> Some (c # b, a)))"

fun getSubstitution :: "string \<Rightarrow> string \<Rightarrow> string \<Rightarrow> string \<Rightarrow> string" where
  "getSubstitution matched pre post [] = []"
| "getSubstitution matched pre post [c] = [c]"
| "getSubstitution matched pre post (c # d # rest) =
     (if c = CHR ''$'' \<and> d = CHR ''$'' then CHR ''$'' # getSubstitution matched pre post rest
      else if c = CHR ''$'' \<and> d = CHR ''&'' then matched @ getSubstitution matched pre post rest
      else if c = CHR ''$'' \<and> d = CHR 0x60 then pre @ getSubstitution matched pre post rest
      else if c = CHR ''$'' \<and> d = CHR 0x27 then post @ getSubstitution matched pre post rest
      else c # getSubstitution matched pre post (d # rest))"

definition jsReplace :: "string \<Rightarrow> string \<Rightarrow> string \<Rightarrow> string" where
  "jsReplace text pat repl =
     (case findFirst pat text of
        None \<Rightarrow> text
      | Some (pre, post) \<Rightarrow> pre @ getSubstitution pat pre post repl @ post)"

section \<open>Token parser\<close>

text \<open>
  One match of \<open>/\{([^}]+)\}(\.[a-zA-Z0-9_]+(?:\([^()]*\))?)?/g\<close>: the whole matched text,
  the field path (group 1) and the method-call suffix (group 2, \<open>undefined\<close> when the
  group took no part in the match).
\<close>

record fieldRef =
  fullMatch :: string
  fieldPath :: string
  methodCall :: "string option"

definition isWordChar :: "char \<Rightarrow> bool" where
  "isWordChar c = (isUpper c \<or> isLower c \<or> isDigit c \<or> c = CHR ''_'')"

definition notParen :: "char \<Rightarrow> bool" where
  "notParen c = (c \<noteq> CHR ''('' \<and> c \<noteq> CHR '')'')"

text \<open>
  Group 2 at the start of \<open>s\<close>: a dot, the longest run of word characters (at least one),
  and then an argument list \<open>(...)\<close> without parentheses inside, when one follows at once.
  The quantifiers are greedy and the argument list is optional, so nothing is given back.
\<close>

definition matchMethodSuffix :: "string \<Rightarrow> string option" where
  "matchMethodSuffix s =
     (case s of
        [] \<Rightarrow> None
      | c # r \<Rightarrow>
          if c \<noteq> CHR ''.'' \<or> takeWhile isWordChar r = [] then None
          else
            (let name = takeWhile isWordChar r; r2 = dropWhile isWordChar r in
             case r2 of
               [] \<Rightarrow> Some (CHR ''.'' # name)
             | p # r3 \<Rightarrow>
                 if p = CHR ''('' \<and> (case dropWhile notParen r3 of [] \<Rightarrow> False | q # _ \<Rightarrow> q = CHR '')'')
                 then Some (CHR ''.'' # name @ CHR ''('' # takeWhile notParen r3 @ '')'')
                 else Some (CHR ''.'' # name)))"

text \<open>
  A match that starts at an opening brace, given the text after the brace: the path is
  everything up to the next closing brace and must not be empty. The result is the token
  and the text after the match.
\<close>

definition matchToken :: "string \<Rightarrow> (fieldRef \<times> string) option" where
  "matchToken cs =
     (let path = takeWhile (\<lambda>c. c \<noteq> CHR ''}'') cs; r = dropWhile (\<lambda>c. c \<noteq> CHR ''}'') cs in
      if path = [] \<or> r = [] then None
      else
        (let suffix = matchMethodSuffix (tl r);
             m = (case suffix of None \<Rightarrow> [] | Some t \<Rightarrow> t)
         in Some (\<lparr>fullMatch = CHR ''{'' # path @ ''}'' @ m, fieldPath = path, methodCall = suffix\<rparr>,
                  drop (length m) (tl r))))"

text \<open>
  The \<open>while ((match = complexRegex.exec(text)) !== null)\<close> loop: the matches from left to
  right, each search starting where the previous match ended.
\<close>

function extractTokens :: "string \<Rightarrow> fieldRef list" where
  "extractTokens [] = []"
| "extractTokens (c # cs) =
     (if c = CHR ''{'' then
        (case matchToken cs of
           None \<Rightarrow> extractTokens cs
         | Some (ref, rest) \<Rightarrow> ref # extractTokens rest)
      else extractTokens cs)"
  by pat_completeness auto
termination
proof (relation "measure length")
  show "wf (measure length)" by simp
next
  fix c :: char and cs :: string
  show "(cs, c # cs) \<in> measure length" by simp
next
  fix c :: char and cs x2 x y
  assume m: "matchToken cs = Some x2" and x: "(x, y) = x2"
  have "length (drop n (tl (dropWhile P cs))) \<le> length cs" for n and P :: "char \<Rightarrow> bool"
    using length_dropWhile_le [of P cs] by simp
  with m x have "length y \<le> length cs"
    by (auto simp: matchToken_def Let_def split: if_splits)
  then show "(y, c # cs) \<in> measure length" by simp
next
  fix c :: char and cs :: string
  show "(cs, c # cs) \<in> measure length" by simp
qed

text \<open>
  \<open>ExpressionEvaluator.extractFieldReferences\<close>: the same loop for \<open>/\{([^}]+)\}/g\<close>, which
  has no method suffix, keeping group 1 only.
\<close>

function extractFieldReferences :: "string \<Rightarrow> string list" where
  "extractFieldReferences [] = []"
| "extractFieldReferences (c # cs) =
     (if c = CHR ''{'' \<and> takeWhile (\<lambda>c. c \<noteq> CHR ''}'') cs \<noteq> [] \<and> dropWhile (\<lambda>c. c \<noteq> CHR ''}'') cs \<noteq> []
      then takeWhile (\<lambda>c. c \<noteq> CHR ''}'') cs # extractFieldReferences (tl (dropWhile (\<lambda>c. c \<noteq> CHR ''}'') cs))
      else extractFieldReferences cs)"
  by pat_completeness auto
termination
proof (relation "measure length")
  show "wf (measure length)" by simp
next
  fix c :: char and cs :: string
  have "length (tl (dropWhile (\<lambda>c. c \<noteq> CHR ''}'') cs)) \<le> length cs"
    using length_dropWhile_le [of "\<lambda>c. c \<noteq> CHR ''}''" cs] by simp
  then show "(tl (dropWhile (\<lambda>c. c \<noteq> CHR ''}'') cs), c # cs) \<in> measure length" by simp
next
  fix c :: char and cs :: string
  show "(cs, c # cs) \<in> measure length" by simp
qed

section \<open>Value coercion\<close>

text \<open>
  \<open>isDateString\<close> tests \<open>/^\d{4}-\d{2}-\d{2}(T|\s)\d{2}:\d{2}:\d{2}(Z|[+-]\d{2}:\d{2})?$/\<close>.
  Every piece of the pattern has a fixed length, so the match is a walk along the string:
  a list of character classes is matched against a prefix and the rest is returned.
\<close>

datatype charClass = Digit | Lit char | DateSep | Sign

fun inClass :: "charClass \<Rightarrow> char \<Rightarrow> bool" where
  "inClass Digit c = isDigit c"
| "inClass (Lit l) c = (c = l)"
| "inClass DateSep c = (c = CHR ''T'' \<or> isSpace c)"
| "inClass Sign c = (c = CHR ''+'' \<or> c = CHR ''-'')"

fun matchClasses :: "charClass list \<Rightarrow> string \<Rightarrow> string option" where
  "matchClasses [] s = Some s"
| "matchClasses (k # ks) [] = None"
| "matchClasses (k # ks) (c # cs) = (if inClass k c then matchClasses ks cs else None)"

definition dateTimeClasses :: "charClass list" where
  "dateTimeClasses =
     [Digit, Digit, Digit, Digit, Lit CHR ''-'', Digit, Digit, Lit CHR ''-'', Digit, Digit,
      DateSep, Digit, Digit, Lit CHR '':'', Digit, Digit, Lit CHR '':'', Digit, Digit]"

definition offsetClasses :: "charClass list" where
  "offsetClasses = [Sign, Digit, Digit, Lit CHR '':'', Digit, Digit]"

definition isDateString :: "string \<Rightarrow> bool" where
  "isDateString str =
     (case matchClasses dateTimeClasses str of
        None \<Rightarrow> False
      | Some rest \<Rightarrow> rest = [] \<or> rest = ''Z'' \<or> matchClasses offsetClasses rest = Some [])"

text \<open>\<open>ExpressionEvaluator.convertValueToProperType\<close>.\<close>

fun convertValueToProperType :: "jsval \<Rightarrow> jsval" where
  "convertValueToProperType JNull = JNull"
| "convertValueToProperType JUndefined = JNull"
| "convertValueToProperType (JStr s) = (if isDateString s then JDate s else JStr s)"
| "convertValueToProperType (JDate d) = JDate d"
| "convertValueToProperType v = v"

section \<open>Host, component state and record cache\<close>

text \<open>
  The \<open>data\<close> object that the evaluator fills, \<open>const data: Record<string, any> = {}\<close>:
  its own properties, and its prototype when that is no longer \<open>Object.prototype\<close>
  (\<open>None\<close> as long as it is).
\<close>

record dataObject =
  dataOwn :: "string \<rightharpoonup> jsval"
  dataProto :: "jsval option"

definition emptyData :: dataObject where
  "emptyData = \<lparr>dataOwn = Map.empty, dataProto = None\<rparr>"

text \<open>
  \<open>data[reference] = v\<close>. The name \<open>__proto__\<close> is the accessor inherited from
  \<open>Object.prototype\<close>: the assignment makes no property, it replaces the prototype when
  \<open>v\<close> is an object or \<open>null\<close> and does nothing otherwise. Once the prototype is
  \<open>null\<close> nothing is inherited any more, and \<open>__proto__\<close> is a name like any other.
\<close>

fun isObjectOrNull :: "jsval \<Rightarrow> bool" where
  "isObjectOrNull JNull = True"
| "isObjectOrNull (JDate d) = True"
| "isObjectOrNull (JInherited name) = True"
| "isObjectOrNull v = False"

definition dataSet :: "dataObject \<Rightarrow> string \<Rightarrow> jsval \<Rightarrow> dataObject" where
  "dataSet data reference v =
     (if reference = ''__proto__'' \<and> dataProto data \<noteq> Some JNull
      then (if isObjectOrNull v
            then data\<lparr>dataProto := (if v = JInherited ''__proto__'' then None else Some v)\<rparr>
            else data)
      else data\<lparr>dataOwn := (dataOwn data)(reference \<mapsto> v)\<rparr>)"

text \<open>
  What the code takes from its host. \<open>retrieveRecord\<close> is
  \<open>context.webAPI.retrieveRecord(entityName, id)\<close>: its first argument is the number of
  calls made before this one, so that an answer may change from call to call (a transient
  failure); \<open>None\<close> is a rejected promise. The component passes strings only; the
  evaluator passes whatever truthy values it finds on a record, so the two arguments are
  values. \<open>methodOf v name\<close> is the property \<open>v[name]\<close>
  when \<open>typeof v[name] === 'function'\<close>, as a function of the argument list that returns
  \<open>None\<close> when the call throws. \<open>jsonParse\<close> is \<open>JSON.parse\<close> (\<open>None\<close> when it throws),
  \<open>dateToString\<close> is \<open>String(d)\<close> of a \<open>Date\<close>, and \<open>evalExpression\<close> is the result of
  \<open>ExpressionEvaluator.safeEvaluateWithData\<close>, which rewrites the expression and runs it
  with the \<open>Function\<close> constructor over \<open>data\<close> and \<open>record\<close>, catching every exception.
  \<open>objectToString\<close> is \<open>String(v)\<close> of an inherited member, and \<open>numberToString\<close> is
  \<open>String(n)\<close> of a number that a double does not hold exactly.
\<close>

record host =
  retrieveRecord :: "nat \<Rightarrow> jsval \<Rightarrow> jsval \<Rightarrow> jsrecord option"
  methodOf :: "jsval \<Rightarrow> string \<Rightarrow> (jsval list \<Rightarrow> jsval option) option"
  jsonParse :: "string \<Rightarrow> jsval option"
  dateToString :: "string \<Rightarrow> string"
  objectToString :: "string \<Rightarrow> string"
  numberToString :: "int \<Rightarrow> string"
  evalExpression :: "string \<Rightarrow> dataObject \<Rightarrow> jsrecord \<Rightarrow> bool"

text \<open>
  \<open>String(v)\<close>. An integer up to \<open>2^53\<close> in absolute value is held exactly and prints
  in decimal (the exponent form starts at \<open>10^21\<close>); how the other values print is
  left to the host.
\<close>

fun jsString :: "host \<Rightarrow> jsval \<Rightarrow> string" where
  "jsString h JUndefined = ''undefined''"
| "jsString h JNull = ''null''"
| "jsString h (JBool b) = (if b then ''true'' else ''false'')"
| "jsString h (JNum n) =
     (if \<bar>n\<bar> \<le> 9007199254740992 then showInt n else numberToString h n)"
| "jsString h (JStr s) = s"
| "jsString h (JDate s) = dateToString h s"
| "jsString h (JInherited name) = objectToString h name"

datatype error = FetchFailed

datatype diagnostic = ConsoleWarn string | ConsoleError string

text \<open>\<open>interface CacheEntry { record?: Record<string, any>; isLoading?: boolean; }\<close>\<close>

record cacheEntry =
  entry_record :: "jsrecord option"
  isLoading :: "bool option"

text \<open>
  The state the functions share: the global \<open>window.recordCache\<close>, the component's
  \<open>fetchedRecordKeys\<close> set, and the console. Two fields are not in the code and only
  observe it: \<open>fetchLog\<close> lists the calls of \<open>webAPI.retrieveRecord\<close> in order, and
  \<open>untrackedWrites\<close> collects every key that was assigned in the cache at a moment when it
  was not in \<open>fetchedRecordKeys\<close>.
\<close>

record state =
  recordCache :: "string \<rightharpoonup> cacheEntry"
  fetchedRecordKeys :: "string set"
  console :: "diagnostic list"
  fetchLog :: "(jsval \<times> jsval) list"
  untrackedWrites :: "string set"

text \<open>\<open>cache[key] = entry\<close>, \<open>delete cache[key]\<close> and \<open>fetchedRecordKeys.current.add(key)\<close>.\<close>

definition cachePut :: "string \<Rightarrow> cacheEntry \<Rightarrow> state \<Rightarrow> state" where
  "cachePut key entry s =
     s\<lparr>recordCache := (recordCache s)(key \<mapsto> entry),
       untrackedWrites := (if key \<in> fetchedRecordKeys s then untrackedWrites s
                           else insert key (untrackedWrites s))\<rparr>"

definition cacheDelete :: "string \<Rightarrow> state \<Rightarrow> state" where
  "cacheDelete key s = s\<lparr>recordCache := (recordCache s)(key := None)\<rparr>"

definition trackKey :: "string \<Rightarrow> state \<Rightarrow> state" where
  "trackKey key s = s\<lparr>fetchedRecordKeys := insert key (fetchedRecordKeys s)\<rparr>"

definition logMessage :: "diagnostic \<Rightarrow> state \<Rightarrow> state" where
  "logMessage d s = s\<lparr>console := console s @ [d]\<rparr>"

text \<open>\<open>cache[cacheKey]?.record\<close> and the truth of \<open>cache[cacheKey]?.isLoading\<close>.\<close>

definition cachedRecord :: "cacheEntry option \<Rightarrow> jsrecord option" where
  "cachedRecord e = (case e of None \<Rightarrow> None | Some entry \<Rightarrow> entry_record entry)"

definition cachedLoading :: "cacheEntry option \<Rightarrow> bool" where
  "cachedLoading e = (case e of None \<Rightarrow> False | Some entry \<Rightarrow> isLoading entry = Some True)"

definition MAX_RETRIES :: nat where
  "MAX_RETRIES = 5"

definition cacheKeyOf :: "string \<Rightarrow> string \<Rightarrow> string" where
  "cacheKeyOf entityName recordId = entityName @ '':'' @ recordId"

text \<open>
  \<open>retrieveRecordWithCache\<close>. The function runs alone: while it waits for a loading marker
  to go away no other task changes the cache, so the marker is still there at every retry
  and is deleted at the last one. The delays themselves are not modelled.
\<close>

function retrieveRecordWithCache ::
  "host \<Rightarrow> string \<Rightarrow> string \<Rightarrow> nat \<Rightarrow> state \<Rightarrow> (error + jsrecord) \<times> state" where
  "retrieveRecordWithCache h entityName recordId retryCount s =
     (let cacheKey = cacheKeyOf entityName recordId;
          s1 = trackKey cacheKey s
      in case cachedRecord (recordCache s1 cacheKey) of
           Some r \<Rightarrow> (Inr r, s1)
         | None \<Rightarrow>
             if cachedLoading (recordCache s1 cacheKey) \<and> retryCount < MAX_RETRIES then
               (case retrieveRecordWithCache h entityName recordId (retryCount + 1) s1 of
                  (Inl e, s2) \<Rightarrow> (Inl e, cacheDelete cacheKey s2)
                | (Inr r, s2) \<Rightarrow> (Inr r, s2))
             else
               (let s2 = (if cachedLoading (recordCache s1 cacheKey)
                          then cacheDelete cacheKey s1 else s1);
                    s3 = cachePut cacheKey \<lparr>entry_record = None, isLoading = Some True\<rparr> s2;
                    s4 = s3\<lparr>fetchLog := fetchLog s3 @ [(JStr entityName, JStr recordId)]\<rparr>
                in case retrieveRecord h (length (fetchLog s3)) (JStr entityName) (JStr recordId) of
                     Some r \<Rightarrow> (Inr r, cachePut cacheKey \<lparr>entry_record = Some r, isLoading = None\<rparr> s4)
                   | None \<Rightarrow> (Inl FetchFailed, cacheDelete cacheKey s4)))"
  by pat_completeness auto
termination
  by (relation "measure (\<lambda>(h, entityName, recordId, retryCount, s). MAX_RETRIES - retryCount)") auto

text \<open>
  The post-save handler and the unmount cleanup both run
  \<open>fetchedRecordKeys.current.forEach(key => { delete cache[key]; })\<close>; the handler then
  bumps the save counter, which makes the component fetch its record again.
\<close>

definition deleteFetchedKeys :: "state \<Rightarrow> state" where
  "deleteFetchedKeys s = s\<lparr>recordCache := restrict_map (recordCache s) (- fetchedRecordKeys s)\<rparr>"

definition handlePostSave :: "state \<times> nat \<Rightarrow> state \<times> nat" where
  "handlePostSave p = (case p of (s, saveCounter) \<Rightarrow> (deleteFetchedKeys s, saveCounter + 1))"

definition unmountCleanup :: "state \<Rightarrow> state" where
  "unmountCleanup s = deleteFetchedKeys s"

section \<open>Lookup resolver of the component\<close>

text \<open>
  \<open>fetchSingleLevelRecord\<close>: one hop. The result is \<open>null\<close> (\<open>Inr None\<close>) when the id or the
  logical name is not a non-empty string; an exception of the cached retrieval goes through.
\<close>

definition fetchSingleLevelRecord ::
  "host \<Rightarrow> jsrecord \<Rightarrow> string \<Rightarrow> state \<Rightarrow> (error + (jsrecord \<times> string) option) \<times> state" where
  "fetchSingleLevelRecord h currentRecord field s =
     (let idField = ''_'' @ field @ ''_value'';
          logicalNameField = ''_'' @ field @ ''_value@Microsoft.Dynamics.CRM.lookuplogicalname'';
          id = getAttr currentRecord idField;
          entity = getAttr currentRecord logicalNameField
      in case id of
           JStr i \<Rightarrow>
             (case entity of
                JStr e \<Rightarrow>
                  if i \<noteq> [] \<and> e \<noteq> [] then
                    (let cacheKey = cacheKeyOf e i;
                         s1 = trackKey cacheKey s
                     in case retrieveRecordWithCache h e i 0 s1 of
                          (Inl err, s2) \<Rightarrow> (Inl err, s2)
                        | (Inr r, s2) \<Rightarrow> (Inr (Some (r, e)), s2))
                  else (Inr None, s)
              | _ \<Rightarrow> (Inr None, s))
         | _ \<Rightarrow> (Inr None, s))"

text \<open>
  The \<open>for\<close> loop of \<open>fetchRelatedRecord\<close> over the levels after the first: a hop that
  gives \<open>null\<close> leaves the loop (\<open>break\<close>) with the record reached so far.
\<close>

fun fetchFurtherLevels ::
  "host \<Rightarrow> jsrecord \<Rightarrow> string list \<Rightarrow> state \<Rightarrow> (error + jsrecord) \<times> state" where
  "fetchFurtherLevels h currentRecord [] s = (Inr currentRecord, s)"
| "fetchFurtherLevels h currentRecord (field # others) s =
     (case fetchSingleLevelRecord h currentRecord field s of
        (Inl err, s1) \<Rightarrow> (Inl err, s1)
      | (Inr None, s1) \<Rightarrow> (Inr currentRecord, s1)
      | (Inr (Some (r, e)), s1) \<Rightarrow> fetchFurtherLevels h r others s1)"

text \<open>
  \<open>fetchRelatedRecord\<close>, with the component's \<open>record\<close> state as an argument: \<open>null\<close> when
  there is no record, no path or no first hop, and when anything throws.
\<close>

definition fetchRelatedRecord ::
  "host \<Rightarrow> jsrecord option \<Rightarrow> string list \<Rightarrow> state \<Rightarrow> jsrecord option \<times> state" where
  "fetchRelatedRecord h record lookupPath s =
     (case record of
        None \<Rightarrow> (None, s)
      | Some currentRecord \<Rightarrow>
          (case lookupPath of
             [] \<Rightarrow> (None, s)
           | field # others \<Rightarrow>
               (case fetchSingleLevelRecord h currentRecord field s of
                  (Inl err, s1) \<Rightarrow>
                    (None, logMessage (ConsoleError ''Error retrieving related record for'') s1)
                | (Inr None, s1) \<Rightarrow> (None, s1)
                | (Inr (Some (r, e)), s1) \<Rightarrow>
                    (case fetchFurtherLevels h r others s1 of
                       (Inl err, s2) \<Rightarrow>
                         (None, logMessage (ConsoleError ''Error retrieving related record for'') s2)
                     | (Inr result, s2) \<Rightarrow> (Some result, s2)))))"

section \<open>Template resolver\<close>

text \<open>\<open>lookupPath[0]\<close> inside a template string: \<open>undefined\<close> prints as such.\<close>

definition firstSegment :: "string list \<Rightarrow> string" where
  "firstSegment lookupPath = (case lookupPath of [] \<Rightarrow> ''undefined'' | l # _ \<Rightarrow> l)"

text \<open>
  The body of the first loop of \<open>asyncReplaceDynamicValues\<close>: the value of one reference.
  \<open>splitOn\<close> never returns the empty list, so \<open>last\<close> and \<open>butlast\<close> are
  \<open>parts[parts.length - 1]\<close> and \<open>parts.slice(0, -1)\<close>.
\<close>

definition resolveFieldValue :: "host \<Rightarrow> jsrecord \<Rightarrow> fieldRef \<Rightarrow> state \<Rightarrow> jsval \<times> state" where
  "resolveFieldValue h record ref s =
     (if CHR ''.'' \<in> set (fieldPath ref) then
        (let parts = splitOn CHR ''.'' (fieldPath ref);
             lookupPath = butlast parts;
             finalField = last parts
         in if toLowerCase finalField = ''id'' then
              (let lookupIdField = ''_'' @ firstSegment lookupPath @ ''_value''
               in (nullish (getAttr record lookupIdField) (JStr (fullMatch ref)), s))
            else
              (case fetchRelatedRecord h (Some record) lookupPath s of
                 (None, s1) \<Rightarrow> (JUndefined, s1)
               | (Some relatedRecord, s1) \<Rightarrow> (getAttr relatedRecord finalField, s1)))
      else (getAttr record (fieldPath ref), s))"

text \<open>The first loop: \<open>resolvedValues.set(ref.fieldPath, fieldValue)\<close> for every reference.\<close>

fun resolveAllFields ::
  "host \<Rightarrow> jsrecord \<Rightarrow> fieldRef list \<Rightarrow> (string \<rightharpoonup> jsval) \<Rightarrow> state \<Rightarrow> (string \<rightharpoonup> jsval) \<times> state" where
  "resolveAllFields h record [] resolvedValues s = (resolvedValues, s)"
| "resolveAllFields h record (ref # refs) resolvedValues s =
     (case resolveFieldValue h record ref s of
        (fieldValue, s1) \<Rightarrow>
          resolveAllFields h record refs (resolvedValues(fieldPath ref \<mapsto> fieldValue)) s1)"

text \<open>\<open>resolvedValues.get(path)\<close>.\<close>

definition mapGet :: "(string \<rightharpoonup> jsval) \<Rightarrow> string \<Rightarrow> jsval" where
  "mapGet m k = (case m k of None \<Rightarrow> JUndefined | Some v \<Rightarrow> v)"

subsection \<open>Method calls\<close>

text \<open>
  The functions below take the method-call suffix of a token: a dot, a name, and possibly
  one argument list without parentheses inside, which then ends the suffix.
  \<open>methodNameOf\<close> is \<open>methodCall.substring(1).split('(')[0]\<close>. \<open>argsMatch\<close> is group 1 of
  \<open>/\((.*)\)/.exec(methodCall)\<close>: the text between the parentheses, and no match when it
  holds a line terminator, which \<open>.\<close> does not cross.
\<close>

definition methodNameOf :: "string \<Rightarrow> string" where
  "methodNameOf mc = (case splitOn CHR ''('' (drop 1 mc) of [] \<Rightarrow> [] | n # _ \<Rightarrow> n)"

definition argsMatch :: "string \<Rightarrow> string option" where
  "argsMatch mc =
     (case dropWhile (\<lambda>c. c \<noteq> CHR ''('') mc of
        [] \<Rightarrow> None
      | p # r \<Rightarrow>
          (let inner = takeWhile (\<lambda>c. c \<noteq> CHR '')'') r
           in if dropWhile (\<lambda>c. c \<noteq> CHR '')'') r = [] \<or> list_ex isLineTerminator inner
              then None else Some inner))"

text \<open>\<open>argsMatch[1].split(',').map(arg => arg.trim()).filter(arg => arg !== '')\<close>\<close>

definition argsOfCall :: "string \<Rightarrow> string list" where
  "argsOfCall mc =
     (case argsMatch mc of
        None \<Rightarrow> []
      | Some inner \<Rightarrow> filter (\<lambda>arg. arg \<noteq> []) (map trim (splitOn CHR '','' inner)))"

definition isQuote :: "char \<Rightarrow> bool" where
  "isQuote c = (c = CHR 0x27 \<or> c = CHR 0x22)"

text \<open>\<open>arg.replace(/^['"](.*)['"]$/, '$1')\<close>: the quotes around the argument are dropped.\<close>

definition stripQuotes :: "string \<Rightarrow> string" where
  "stripQuotes arg =
     (case arg of
        [] \<Rightarrow> arg
      | c # r \<Rightarrow>
          if r \<noteq> [] \<and> isQuote c \<and> isQuote (last r) \<and> \<not> list_ex isLineTerminator (butlast r)
          then butlast r else arg)"

definition parseArg :: "host \<Rightarrow> string \<Rightarrow> jsval" where
  "parseArg h arg = (case jsonParse h arg of Some v \<Rightarrow> v | None \<Rightarrow> JStr (stripQuotes arg))"

text \<open>
  The first statement of the \<open>try\<close> block: a string that looks like a timestamp becomes a
  \<open>Date\<close> when the method call starts with \<open>.get\<close> or \<open>.toLocale\<close>.
\<close>

definition coerceDateForMethod :: "jsval \<Rightarrow> string \<Rightarrow> jsval" where
  "coerceDateForMethod resolvedValue mc =
     (case resolvedValue of
        JStr str \<Rightarrow>
          if isDateString str \<and> (prefix ''.get'' mc \<or> prefix ''.toLocale'' mc)
          then JDate str else resolvedValue
      | _ \<Rightarrow> resolvedValue)"

text \<open>
  The \<open>try\<close> block that applies a method call to a resolved value. The result is the value
  of \<open>resolvedValue\<close> after the block and whether the \<open>catch\<close> branch ran: reading a
  property of \<open>null\<close> or \<open>undefined\<close> throws a \<open>TypeError\<close>, and the method itself may
  throw; in both cases \<open>resolvedValue\<close> keeps the value it had.
\<close>

definition applyMethodCall :: "host \<Rightarrow> jsval \<Rightarrow> string \<Rightarrow> jsval \<times> bool" where
  "applyMethodCall h resolvedValue mc =
     (let v = coerceDateForMethod resolvedValue mc;
          methodName = methodNameOf mc;
          args = argsOfCall mc
      in if v = JNull \<or> v = JUndefined then (v, True)
         else
           (case methodOf h v methodName of
              None \<Rightarrow> (v, False)
            | Some method \<Rightarrow>
                (case method (map (parseArg h) args) of
                   None \<Rightarrow> (v, True)
                 | Some result \<Rightarrow> (result, False))))"

text \<open>The second loop: every reference is replaced in the text, in order.\<close>

fun replaceFieldRefs ::
  "host \<Rightarrow> (string \<rightharpoonup> jsval) \<Rightarrow> fieldRef list \<Rightarrow> string \<Rightarrow> state \<Rightarrow> string \<times> state" where
  "replaceFieldRefs h resolvedValues [] newText s = (newText, s)"
| "replaceFieldRefs h resolvedValues (ref # refs) newText s =
     (let resolvedValue = mapGet resolvedValues (fieldPath ref)
      in if resolvedValue = JUndefined then
           replaceFieldRefs h resolvedValues refs
             (jsReplace newText (fullMatch ref) (jsString h (JStr (fullMatch ref)))) s
         else
           (case methodCall ref of
              None \<Rightarrow>
                replaceFieldRefs h resolvedValues refs
                  (jsReplace newText (fullMatch ref) (jsString h resolvedValue)) s
            | Some mc \<Rightarrow>
                (case applyMethodCall h resolvedValue mc of
                   (v, caught) \<Rightarrow>
                     replaceFieldRefs h resolvedValues refs
                       (jsReplace newText (fullMatch ref) (jsString h v))
                       (if caught then logMessage (ConsoleWarn ''Error applying method'') s else s))))"

text \<open>
  \<open>asyncReplaceDynamicValues\<close>, with the component's \<open>record\<close> state as an argument. The
  text is \<open>string | undefined\<close>.
\<close>

definition asyncReplaceDynamicValues ::
  "host \<Rightarrow> jsrecord option \<Rightarrow> string option \<Rightarrow> state \<Rightarrow> string \<times> state" where
  "asyncReplaceDynamicValues h record text s =
     (case text of
        None \<Rightarrow> ([], s)
      | Some t \<Rightarrow>
          (case record of
             None \<Rightarrow> ([], s)
           | Some r \<Rightarrow>
               if t = [] then ([], s)
               else
                 (let fieldRefs = extractTokens t
                  in case resolveAllFields h r fieldRefs Map.empty s of
                       (resolvedValues, s1) \<Rightarrow> replaceFieldRefs h resolvedValues fieldRefs t s1)))"

section \<open>Expression evaluator\<close>

text \<open>
  An \<open>ExpressionEvaluator\<close> object: the record it was constructed with and its private
  \<open>relatedRecordsCache\<close>. The constructor is only ever given a record object, so the
  \<open>!this.record\<close> guards never fire.
\<close>

record evaluator =
  ev_record :: jsrecord
  relatedRecordsCache :: "string \<rightharpoonup> jsrecord"

definition newExpressionEvaluator :: "jsrecord \<Rightarrow> evaluator" where
  "newExpressionEvaluator r = \<lparr>ev_record = r, relatedRecordsCache = Map.empty\<rparr>"

text \<open>\<open>lookupPath.join('.')\<close>\<close>

fun joinWith :: "char \<Rightarrow> string list \<Rightarrow> string" where
  "joinWith c [] = []"
| "joinWith c [x] = x"
| "joinWith c (x # y # ys) = x @ c # joinWith c (y # ys)"

text \<open>The evaluator's own \<open>retrieveRecord\<close>: no cache, and \<open>null\<close> when the call fails.\<close>

definition EE_retrieveRecord :: "host \<Rightarrow> jsval \<Rightarrow> jsval \<Rightarrow> state \<Rightarrow> jsrecord option \<times> state" where
  "EE_retrieveRecord h entityName recordId s =
     (let s1 = s\<lparr>fetchLog := fetchLog s @ [(entityName, recordId)]\<rparr>
      in case retrieveRecord h (length (fetchLog s)) entityName recordId of
           Some r \<Rightarrow> (Some r, s1)
         | None \<Rightarrow> (None, logMessage (ConsoleError ''Error retrieving record'') s1))"

text \<open>The \<open>for\<close> loop of the evaluator's \<open>fetchRelatedRecord\<close>: a missing hop returns \<open>null\<close>.\<close>

fun EE_fetchFurtherLevels ::
  "host \<Rightarrow> jsrecord \<Rightarrow> string list \<Rightarrow> state \<Rightarrow> jsrecord option \<times> state" where
  "EE_fetchFurtherLevels h result [] s = (Some result, s)"
| "EE_fetchFurtherLevels h result (nextLookup # others) s =
     (let nextIdField = ''_'' @ nextLookup @ ''_value'';
          nextLogicalNameField =
            ''_'' @ nextLookup @ ''_value@Microsoft.Dynamics.CRM.lookuplogicalname'';
          currentId = getAttr result nextIdField;
          currentEntity = getAttr result nextLogicalNameField
      in if \<not> truthy currentId \<or> \<not> truthy currentEntity then (None, s)
         else
           (case EE_retrieveRecord h currentEntity currentId s of
              (None, s1) \<Rightarrow> (None, s1)
            | (Some nextRecord, s1) \<Rightarrow> EE_fetchFurtherLevels h nextRecord others s1))"

definition EE_fetchRelatedRecord ::
  "host \<Rightarrow> evaluator \<Rightarrow> string list \<Rightarrow> state \<Rightarrow> jsrecord option \<times> state" where
  "EE_fetchRelatedRecord h ev lookupPath s =
     (case lookupPath of
        [] \<Rightarrow> (None, s)
      | firstLookup # others \<Rightarrow>
          (let idField = ''_'' @ firstLookup @ ''_value'';
               logicalNameField =
                 ''_'' @ firstLookup @ ''_value@Microsoft.Dynamics.CRM.lookuplogicalname'';
               currentId = getAttr (ev_record ev) idField;
               currentEntity = getAttr (ev_record ev) logicalNameField
           in if \<not> truthy currentId \<or> \<not> truthy currentEntity then (None, s)
              else
                (case EE_retrieveRecord h currentEntity currentId s of
                   (None, s1) \<Rightarrow> (None, s1)
                 | (Some result, s1) \<Rightarrow> EE_fetchFurtherLevels h result others s1)))"

text \<open>\<open>relatedRecord && relatedRecord[finalField] !== undefined ? relatedRecord[finalField] : null\<close>\<close>

definition fieldOrNull :: "jsrecord option \<Rightarrow> string \<Rightarrow> jsval" where
  "fieldOrNull relatedRecord finalField =
     (case relatedRecord of
        None \<Rightarrow> JNull
      | Some r \<Rightarrow> if getAttr r finalField \<noteq> JUndefined then getAttr r finalField else JNull)"

definition getRelatedFieldValue ::
  "host \<Rightarrow> string \<Rightarrow> evaluator \<times> state \<Rightarrow> jsval \<times> evaluator \<times> state" where
  "getRelatedFieldValue h path es =
     (case es of
        (ev, s) \<Rightarrow>
          (let parts = splitOn CHR ''.'' path;
               lookupPath = butlast parts;
               finalField = last parts;
               cacheKey = joinWith CHR ''.'' lookupPath
           in case relatedRecordsCache ev cacheKey of
                Some relatedRecord \<Rightarrow> (fieldOrNull (Some relatedRecord) finalField, ev, s)
              | None \<Rightarrow>
                  (case EE_fetchRelatedRecord h ev lookupPath s of
                     (None, s1) \<Rightarrow> (JNull, ev, s1)
                   | (Some relatedRecord, s1) \<Rightarrow>
                       (fieldOrNull (Some relatedRecord) finalField,
                        ev\<lparr>relatedRecordsCache := (relatedRecordsCache ev)(cacheKey \<mapsto> relatedRecord)\<rparr>,
                        s1))))"

text \<open>\<open>createDataObject\<close>: the direct references only.\<close>

fun createDataObject :: "evaluator \<Rightarrow> string list \<Rightarrow> dataObject \<Rightarrow> dataObject" where
  "createDataObject ev [] data = data"
| "createDataObject ev (reference # references) data =
     (if CHR ''.'' \<notin> set reference
      then createDataObject ev references
             (dataSet data reference (convertValueToProperType (getAttr (ev_record ev) reference)))
      else createDataObject ev references data)"

text \<open>\<open>createDataObjectAsync\<close>: every reference, the dotted ones through the lookups.\<close>

fun createDataObjectAsync ::
  "host \<Rightarrow> string list \<Rightarrow> dataObject \<Rightarrow> evaluator \<times> state
    \<Rightarrow> dataObject \<times> evaluator \<times> state" where
  "createDataObjectAsync h [] data es = (data, es)"
| "createDataObjectAsync h (reference # references) data es =
     (if CHR ''.'' \<in> set reference then
        (case getRelatedFieldValue h reference es of
           (v, es1) \<Rightarrow>
             createDataObjectAsync h references (dataSet data reference (convertValueToProperType v)) es1)
      else
        createDataObjectAsync h references
          (dataSet data reference (convertValueToProperType (getAttr (ev_record (fst es)) reference)))
          es)"

text \<open>
  \<open>evaluate\<close>. The state is passed through to record the console output; the function
  has no other effect.
\<close>

definition evaluate :: "host \<Rightarrow> evaluator \<Rightarrow> string \<Rightarrow> state \<Rightarrow> bool \<times> state" where
  "evaluate h ev expression s =
     (if expression = [] then (True, s)
      else
        (let fieldReferences = extractFieldReferences expression
         in if list_ex (\<lambda>ref. CHR ''.'' \<in> set ref) fieldReferences then
              (False,
               logMessage
                 (ConsoleWarn ''Expression contains related fields and cannot be evaluated synchronously:'')
                 s)
            else
              (evalExpression h expression (createDataObject ev fieldReferences emptyData) (ev_record ev),
               s)))"

definition evaluateAsync :: "host \<Rightarrow> string \<Rightarrow> evaluator \<times> state \<Rightarrow> bool \<times> evaluator \<times> state" where
  "evaluateAsync h expression es =
     (if expression = [] then (True, es)
      else
        (let fieldReferences = extractFieldReferences expression
         in case createDataObjectAsync h fieldReferences emptyData es of
              (data, ev1, s1) \<Rightarrow> (evalExpression h expression data (ev_record ev1), ev1, s1)))"

section \<open>Button pipeline\<close>

record buttonConfig =
  theia_buttonlabel :: string
  theia_url :: string
  theia_buttonposition :: int
  theia_buttontooltip :: "string option"
  theia_tablename :: string
  theia_buttonicon :: "string option"
  theia_visibilityexpression :: "string option"
  theia_showaslink :: bool
  theia_actionscript :: "string option"
  isVisible :: "bool option"

text \<open>
  \<open>!expr || await expressionEvaluator?.evaluateAsync(expr)\<close>: no expression means visible,
  and no evaluator gives \<open>undefined\<close>, which is not visible.
\<close>

definition visibilityOf ::
  "host \<Rightarrow> string option \<Rightarrow> evaluator option \<times> state \<Rightarrow> bool \<times> evaluator option \<times> state" where
  "visibilityOf h expr es =
     (case es of
        (evo, s) \<Rightarrow>
          (case expr of
             None \<Rightarrow> (True, evo, s)
           | Some e \<Rightarrow>
               if e = [] then (True, evo, s)
               else
                 (case evo of
                    None \<Rightarrow> (False, evo, s)
                  | Some ev \<Rightarrow>
                      (case evaluateAsync h e (ev, s) of
                         (b, ev1, s1) \<Rightarrow> (b, Some ev1, s1)))))"

text \<open>
  The body of the loop of \<open>resolveConfigs\<close> for one configuration: the four templates are
  resolved one after the other, then the visibility expression is evaluated. The result
  is \<open>resolvedConfig\<close> and \<open>isVisible\<close>.
\<close>

definition resolveOneConfig ::
  "host \<Rightarrow> jsrecord option \<Rightarrow> buttonConfig \<Rightarrow> evaluator option \<times> state
    \<Rightarrow> (buttonConfig \<times> bool) \<times> evaluator option \<times> state" where
  "resolveOneConfig h record config es =
     (case es of
        (evo, s) \<Rightarrow>
          (case asyncReplaceDynamicValues h record (Some (theia_buttonlabel config)) s of
             (label, s1) \<Rightarrow>
               (case asyncReplaceDynamicValues h record (theia_buttontooltip config) s1 of
                  (tooltip, s2) \<Rightarrow>
                    (case asyncReplaceDynamicValues h record (Some (theia_url config)) s2 of
                       (url, s3) \<Rightarrow>
                         (case asyncReplaceDynamicValues h record (theia_actionscript config) s3 of
                            (script, s4) \<Rightarrow>
                              (case visibilityOf h (theia_visibilityexpression config) (evo, s4) of
                                 (visible, es5) \<Rightarrow>
                                   ((config\<lparr>theia_buttonlabel := label,
                                             theia_buttontooltip := Some tooltip,
                                             theia_url := url,
                                             theia_actionscript := Some script\<rparr>,
                                     visible),
                                    es5)))))))"

text \<open>
  The loop: a visible configuration is pushed to \<open>newConfigs\<close> as
  \<open>{ ...resolvedConfig, isVisible }\<close>, the others are dropped.
\<close>

fun resolveSortedConfigs ::
  "host \<Rightarrow> jsrecord option \<Rightarrow> buttonConfig list \<Rightarrow> evaluator option \<times> state
    \<Rightarrow> buttonConfig list \<times> evaluator option \<times> state" where
  "resolveSortedConfigs h record [] es = ([], es)"
| "resolveSortedConfigs h record (config # configs) es =
     (case resolveOneConfig h record config es of
        ((resolvedConfig, visible), es1) \<Rightarrow>
          (case resolveSortedConfigs h record configs es1 of
             (newConfigs, es2) \<Rightarrow>
               (if visible then resolvedConfig\<lparr>isVisible := Some visible\<rparr> # newConfigs
                else newConfigs,
                es2)))"

text \<open>
  \<open>[...configs].sort((a, b) => a.theia_buttonposition - b.theia_buttonposition)\<close>:
  \<open>Array.prototype.sort\<close> is stable, and so is \<open>sort_key\<close>.
\<close>

definition sortedConfigs :: "buttonConfig list \<Rightarrow> buttonConfig list" where
  "sortedConfigs configs = sort_key theia_buttonposition configs"

text \<open>
  \<open>resolveConfigs\<close>: the effect does nothing without a record (\<open>None\<close>); otherwise the
  result is the list given to \<open>setResolvedConfigs\<close>.
\<close>

definition resolveConfigs ::
  "host \<Rightarrow> jsrecord option \<Rightarrow> buttonConfig list \<Rightarrow> evaluator option \<times> state
    \<Rightarrow> (buttonConfig list \<times> evaluator option \<times> state) option" where
  "resolveConfigs h record configs es =
     (case record of
        None \<Rightarrow> None
      | Some r \<Rightarrow> Some (resolveSortedConfigs h record (sortedConfigs configs) es))"

section \<open>Notions used to state the properties\<close>

text \<open>
  What one pass of \<open>resolveSortedConfigs\<close> does with each configuration it is given, in
  order: the configuration, its resolved copy and whether it was found visible.
\<close>

fun passOutcomes ::
  "host \<Rightarrow> jsrecord option \<Rightarrow> buttonConfig list \<Rightarrow> evaluator option \<times> state
    \<Rightarrow> (buttonConfig \<times> buttonConfig \<times> bool) list" where
  "passOutcomes h record [] es = []"
| "passOutcomes h record (config # configs) es =
     (case resolveOneConfig h record config es of
        ((resolvedConfig, visible), es1) \<Rightarrow>
          (config, resolvedConfig, visible) # passOutcomes h record configs es1)"

text \<open>
  The value the specification gives to a path that ends in \<open>id\<close>: the foreign-key id of
  the last lookup of the chain, which is stored on the record that the lookups before it
  lead to. \<open>store\<close> gives the record for an entity name and an id.
\<close>

fun claimedIdValue :: "(jsval \<Rightarrow> jsval \<Rightarrow> jsrecord option) \<Rightarrow> jsrecord \<Rightarrow> string list \<Rightarrow> jsval" where
  "claimedIdValue store r [] = JUndefined"
| "claimedIdValue store r [l] = getAttr r (''_'' @ l @ ''_value'')"
| "claimedIdValue store r (l # l' # ls) =
     (case store (getAttr r (''_'' @ l @ ''_value@Microsoft.Dynamics.CRM.lookuplogicalname''))
                 (getAttr r (''_'' @ l @ ''_value'')) of
        None \<Rightarrow> JUndefined
      | Some r' \<Rightarrow> claimedIdValue store r' (l' # ls))"

text \<open>
  \<open>writesTracked s t\<close>: between the states \<open>s\<close> and \<open>t\<close> no key was assigned in the cache
  while it was outside the tracking set, the tracking set only grew, and the cache
  entries of the keys that are not tracked in \<open>t\<close> are those of \<open>s\<close>.
\<close>

definition writesTracked :: "state \<Rightarrow> state \<Rightarrow> bool" where
  "writesTracked s t =
     (untrackedWrites t = untrackedWrites s \<and>
      fetchedRecordKeys s \<subseteq> fetchedRecordKeys t \<and>
      (\<forall>k. k \<notin> fetchedRecordKeys t \<longrightarrow> recordCache t k = recordCache s k))"

text \<open>
  \<open>cacheExtends s t\<close>: every completed record of the cache of \<open>s\<close> is still there in \<open>t\<close>,
  and so is every tracked key.
\<close>

definition cacheExtends :: "state \<Rightarrow> state \<Rightarrow> bool" where
  "cacheExtends s t =
     ((\<forall>k r. cachedRecord (recordCache s k) = Some r \<longrightarrow> cachedRecord (recordCache t k) = Some r) \<and>
      fetchedRecordKeys s \<subseteq> fetchedRecordKeys t)"

text \<open>\<open>cacheUntouched s t\<close>: the cache and its bookkeeping are the same in both states.\<close>

definition cacheUntouched :: "state \<Rightarrow> state \<Rightarrow> bool" where
  "cacheUntouched s t =
     (recordCache t = recordCache s \<and> fetchedRecordKeys t = fetchedRecordKeys s \<and>
      untrackedWrites t = untrackedWrites s)"

text \<open>
  The attributes of a record that describe one of its lookups: the id of the record the
  lookup points to, and the annotation with that record's entity name.
\<close>

definition idAttr :: "string \<Rightarrow> string" where
  "idAttr lookup = ''_'' @ lookup @ ''_value''"

definition typeAttr :: "string \<Rightarrow> string" where
  "typeAttr lookup = ''_'' @ lookup @ ''_value@Microsoft.Dynamics.CRM.lookuplogicalname''"

text \<open>
  The record a chain of lookups leads to from the record \<open>r\<close>, when \<open>store\<close> gives the
  record for an entity name and an id: every hop reads the id and the entity name of
  its lookup off the record reached so far and goes on to the record the store has for
  them. A hop whose id or entity name is missing or empty, or for which the store has no
  record, leads nowhere; neither does the empty chain.
\<close>

fun chainFrom ::
  "(jsval \<Rightarrow> jsval \<Rightarrow> jsrecord option) \<Rightarrow> jsrecord \<Rightarrow> string list \<Rightarrow> jsrecord option" where
  "chainFrom store r [] = Some r"
| "chainFrom store r (lookup # lookups) =
     (if truthy (getAttr r (idAttr lookup)) \<and> truthy (getAttr r (typeAttr lookup))
      then (case store (getAttr r (typeAttr lookup)) (getAttr r (idAttr lookup)) of
              None \<Rightarrow> None
            | Some target \<Rightarrow> chainFrom store target lookups)
      else None)"

definition chainRecord ::
  "(jsval \<Rightarrow> jsval \<Rightarrow> jsrecord option) \<Rightarrow> jsrecord \<Rightarrow> string list \<Rightarrow> jsrecord option" where
  "chainRecord store r lookups = (if lookups = [] then None else chainFrom store r lookups)"

text \<open>
  The value of a field reference of an expression: a reference without a dot is the
  attribute of the record itself; a dotted one is the attribute named by its last segment
  on the record that the segments before it lead to, and \<open>null\<close> when they lead nowhere
  or that record has no such attribute.
\<close>

definition referenceValue ::
  "(jsval \<Rightarrow> jsval \<Rightarrow> jsrecord option) \<Rightarrow> jsrecord \<Rightarrow> string \<Rightarrow> jsval" where
  "referenceValue store r reference =
     (if CHR ''.'' \<in> set reference
      then fieldOrNull (chainRecord store r (butlast (splitOn CHR ''.'' reference)))
             (last (splitOn CHR ''.'' reference))
      else getAttr r reference)"

text \<open>
  The data map of the specification: the object in which every reference, in turn, has
  been assigned its coerced value.
\<close>

definition resolvedData ::
  "(jsval \<Rightarrow> jsval \<Rightarrow> jsrecord option) \<Rightarrow> jsrecord \<Rightarrow> string list \<Rightarrow> dataObject" where
  "resolvedData store r references =
     foldl (\<lambda>data reference.
              dataSet data reference (convertValueToProperType (referenceValue store r reference)))
       emptyData references"

text \<open>
  A configuration's visibility expression evaluates visible: there is no expression, or
  it is empty, or there is an evaluator and the expression, evaluated over the data map
  of its references and the evaluator's record, gives true.
\<close>

definition expressionVisible ::
  "host \<Rightarrow> (jsval \<Rightarrow> jsval \<Rightarrow> jsrecord option) \<Rightarrow> evaluator option \<Rightarrow> buttonConfig \<Rightarrow> bool" where
  "expressionVisible h store evo config =
     (case theia_visibilityexpression config of
        None \<Rightarrow> True
      | Some e \<Rightarrow>
          if e = [] then True
          else
            (case evo of
               None \<Rightarrow> False
             | Some ev \<Rightarrow>
                 evalExpression h e (resolvedData store (ev_record ev) (extractFieldReferences e))
                   (ev_record ev)))"

text \<open>
  The records an evaluator has kept from earlier evaluations are those of the store: the
  record kept for a chain is the record that chain leads to. A new evaluator has kept
  none.
\<close>

definition relatedCacheAgrees :: "(jsval \<Rightarrow> jsval \<Rightarrow> jsrecord option) \<Rightarrow> evaluator \<Rightarrow> bool" where
  "relatedCacheAgrees store ev =
     (\<forall>k r. relatedRecordsCache ev k = Some r \<longrightarrow>
        chainRecord store (ev_record ev) (splitOn CHR ''.'' k) = Some r)"

definition evaluatorAgrees ::
  "(jsval \<Rightarrow> jsval \<Rightarrow> jsrecord option) \<Rightarrow> evaluator option \<Rightarrow> bool" where
  "evaluatorAgrees store evo =
     (case evo of None \<Rightarrow> True | Some ev \<Rightarrow> relatedCacheAgrees store ev)"

text \<open>
  A resolved configuration is the visible copy of a configuration: it has its position,
  table name, icon, visibility expression and link flag, and \<open>isVisible\<close> is attached
  and true. (The label, the tooltip, the address and the script are the templated fields.)
\<close>

definition visibleCopyOf :: "buttonConfig \<Rightarrow> buttonConfig \<Rightarrow> bool" where
  "visibleCopyOf config resolved =
     (theia_buttonposition resolved = theia_buttonposition config \<and>
      theia_tablename resolved = theia_tablename config \<and>
      theia_buttonicon resolved = theia_buttonicon config \<and>
      theia_visibilityexpression resolved = theia_visibilityexpression config \<and>
      theia_showaslink resolved = theia_showaslink config \<and>
      isVisible resolved = Some True)"

subsection \<open>Example data\<close>

text \<open>
  A page that has fetched nothing yet, a host without methods on its values, and a
  contact whose parent customer is the account \<open>a1\<close>; the account has a web site and a
  primary contact, and no parent account.
\<close>

definition emptyState :: state where
  "emptyState =
     \<lparr>recordCache = Map.empty, fetchedRecordKeys = {}, console = [], fetchLog = [],
      untrackedWrites = {}\<rparr>"

definition hostWith :: "(nat \<Rightarrow> jsval \<Rightarrow> jsval \<Rightarrow> jsrecord option) \<Rightarrow> host" where
  "hostWith store =
     \<lparr>retrieveRecord = store, methodOf = (\<lambda>v name. None), jsonParse = (\<lambda>arg. None),
      dateToString = (\<lambda>d. d), objectToString = (\<lambda>name. ''[object]''),
      numberToString = (\<lambda>n. ''[number]''), evalExpression = (\<lambda>expression data r. False)\<rparr>"

definition accountRecord :: jsrecord where
  "accountRecord =
     [(''name'', JStr ''Contoso''),
      (''websiteurl'', JStr ''https://contoso.com''),
      (''_primarycontactid_value'', JStr ''c9''),
      (''_primarycontactid_value@Microsoft.Dynamics.CRM.lookuplogicalname'', JStr ''contact'')]"

definition contactRecord :: jsrecord where
  "contactRecord =
     [(''_parentcustomerid_value'', JStr ''a1''),
      (''_parentcustomerid_value@Microsoft.Dynamics.CRM.lookuplogicalname'', JStr ''account''),
      (''revenue'', JNum 15000),
      (''createdon'', JStr ''2025-06-02T00:00:00Z'')]"

definition accountStore :: "nat \<Rightarrow> jsval \<Rightarrow> jsval \<Rightarrow> jsrecord option" where
  "accountStore n entityName recordId =
     (if entityName = JStr ''account'' \<and> recordId = JStr ''a1'' then Some accountRecord else None)"

definition failingStore :: "nat \<Rightarrow> jsval \<Rightarrow> jsval \<Rightarrow> jsrecord option" where
  "failingStore n entityName recordId = None"

text \<open>A cache in which another task has left a loading marker for the account.\<close>

definition loadingState :: state where
  "loadingState =
     emptyState\<lparr>recordCache := [''account:a1'' \<mapsto> \<lparr>entry_record = None, isLoading = Some True\<rparr>]\<rparr>"

definition exampleConfig :: "int \<Rightarrow> string \<Rightarrow> string option \<Rightarrow> buttonConfig" where
  "exampleConfig position label expr =
     \<lparr>theia_buttonlabel = label, theia_url = ''https://example.org'',
      theia_buttonposition = position, theia_buttontooltip = None,
      theia_tablename = ''contact'', theia_buttonicon = None,
      theia_visibilityexpression = expr, theia_showaslink = False,
      theia_actionscript = None, isVisible = None\<rparr>"

text \<open>
  A host that evaluates three expressions: \<open>data['revenue'] > 10000\<close> and
  \<open>data['revenue'] > 20000\<close> for a revenue that is a number, and
  \<open>data['parentcustomerid.name'] != null\<close>, which is true of every value but \<open>null\<close>
  and \<open>undefined\<close>. It answers false in every other case.
\<close>

definition exampleEval :: "string \<Rightarrow> dataObject \<Rightarrow> jsrecord \<Rightarrow> bool" where
  "exampleEval expression data r =
     (if expression = ''{revenue} > 10000'' then
        (case dataOwn data ''revenue'' of Some (JNum n) \<Rightarrow> 10000 < n | _ \<Rightarrow> False)
      else if expression = ''{revenue} > 20000'' then
        (case dataOwn data ''revenue'' of Some (JNum n) \<Rightarrow> 20000 < n | _ \<Rightarrow> False)
      else if expression = ''{parentcustomerid.name} != null'' then
        (case dataOwn data ''parentcustomerid.name'' of
           None \<Rightarrow> False
         | Some v \<Rightarrow> v \<noteq> JNull \<and> v \<noteq> JUndefined)
      else False)"

definition evaluatingHost :: "(nat \<Rightarrow> jsval \<Rightarrow> jsval \<Rightarrow> jsrecord option) \<Rightarrow> host" where
  "evaluatingHost store = (hostWith store)\<lparr>evalExpression := exampleEval\<rparr>"

text \<open>Five buttons, given out of order; two share the position 1 with a hidden one.\<close>

definition exampleConfigs :: "buttonConfig list" where
  "exampleConfigs =
     [exampleConfig 3 ''Account'' (Some ''{parentcustomerid.name} != null''),
      exampleConfig 2 ''Revenue {revenue}'' None,
      exampleConfig 1 ''First'' (Some ''{revenue} > 10000''),
      exampleConfig 1 ''Hidden'' (Some ''{revenue} > 20000''),
      exampleConfig 1 ''Third'' (Some [])]"

section \<open>Basic facts\<close>

declare retrieveRecordWithCache.simps [simp del]

lemmas string_defs = isUpper_def isLower_def isDigit_def isWordChar_def notParen_def isSpace_def
  isLineTerminator_def isQuote_def lowerChar_def toLowerCase_def trim_def showInt_def jsReplace_def

lemmas token_defs = matchMethodSuffix_def matchToken_def

lemmas cache_defs = cachePut_def cacheDelete_def trackKey_def logMessage_def cachedRecord_def
  cachedLoading_def cacheKeyOf_def MAX_RETRIES_def retrieveRecordWithCache.simps
  deleteFetchedKeys_def handlePostSave_def unmountCleanup_def

lemmas resolver_defs = getAttr_def objectPrototypeNames_def fetchSingleLevelRecord_def fetchRelatedRecord_def
  firstSegment_def resolveFieldValue_def mapGet_def methodNameOf_def argsMatch_def argsOfCall_def
  stripQuotes_def parseArg_def coerceDateForMethod_def applyMethodCall_def
  asyncReplaceDynamicValues_def Let_def

lemmas evaluator_defs = emptyData_def dataSet_def newExpressionEvaluator_def EE_retrieveRecord_def EE_fetchRelatedRecord_def
  fieldOrNull_def getRelatedFieldValue_def evaluate_def evaluateAsync_def visibilityOf_def
  resolveOneConfig_def sortedConfigs_def resolveConfigs_def isDateString_def dateTimeClasses_def
  offsetClasses_def

lemmas example_defs = emptyState_def hostWith_def accountRecord_def contactRecord_def
  accountStore_def failingStore_def exampleConfig_def

lemma splitOn_nonempty: "splitOn c s \<noteq> []"
  by (induction s) (auto split: list.splits)

lemma splitOn_length: "c \<in> set s \<Longrightarrow> 2 \<le> length (splitOn c s)"
proof (induction s)
  case Nil
  then show ?case by simp
next
  case (Cons x xs)
  show ?case
  proof (cases "x = c")
    case True
    then show ?thesis
      using splitOn_nonempty [of c xs] by (cases "splitOn c xs") auto
  next
    case False
    with Cons have "2 \<le> length (splitOn c xs)" by simp
    with False show ?thesis by (cases "splitOn c xs") auto
  qed
qed

lemma firstSegment_butlast: "2 \<le> length parts \<Longrightarrow> firstSegment (butlast parts) = hd parts"
  by (cases parts; cases "tl parts") (auto simp: firstSegment_def)

subsection \<open>State updates\<close>

lemma trackKey_simps [simp]:
  "recordCache (trackKey k s) = recordCache s"
  "fetchedRecordKeys (trackKey k s) = insert k (fetchedRecordKeys s)"
  "fetchLog (trackKey k s) = fetchLog s"
  "console (trackKey k s) = console s"
  "untrackedWrites (trackKey k s) = untrackedWrites s"
  by (simp_all add: trackKey_def)

lemma cacheDelete_simps [simp]:
  "recordCache (cacheDelete k s) = (recordCache s)(k := None)"
  "fetchedRecordKeys (cacheDelete k s) = fetchedRecordKeys s"
  "fetchLog (cacheDelete k s) = fetchLog s"
  "console (cacheDelete k s) = console s"
  "untrackedWrites (cacheDelete k s) = untrackedWrites s"
  by (simp_all add: cacheDelete_def)

lemma cachePut_simps [simp]:
  "recordCache (cachePut k e s) = (recordCache s)(k \<mapsto> e)"
  "fetchedRecordKeys (cachePut k e s) = fetchedRecordKeys s"
  "fetchLog (cachePut k e s) = fetchLog s"
  "console (cachePut k e s) = console s"
  "untrackedWrites (cachePut k e s) =
     (if k \<in> fetchedRecordKeys s then untrackedWrites s else insert k (untrackedWrites s))"
  by (simp_all add: cachePut_def)

lemma logMessage_simps [simp]:
  "recordCache (logMessage d s) = recordCache s"
  "fetchedRecordKeys (logMessage d s) = fetchedRecordKeys s"
  "fetchLog (logMessage d s) = fetchLog s"
  "console (logMessage d s) = console s @ [d]"
  "untrackedWrites (logMessage d s) = untrackedWrites s"
  by (simp_all add: logMessage_def)

lemma cachedRecord_simps [simp]:
  "cachedRecord None = None"
  "cachedRecord (Some \<lparr>entry_record = r, isLoading = l\<rparr>) = r"
  by (simp_all add: cachedRecord_def)

lemma cachedLoading_simps [simp]:
  "cachedLoading None = False"
  "cachedLoading (Some \<lparr>entry_record = r, isLoading = l\<rparr>) = (l = Some True)"
  by (simp_all add: cachedLoading_def)

lemma trackKey_known: "k \<in> fetchedRecordKeys t \<Longrightarrow> trackKey k t = t"
  by (simp add: trackKey_def insert_absorb)

subsection \<open>The cached retrieval\<close>

text \<open>A completed record in the cache is returned at once: nothing is fetched or written.\<close>

lemma retrieve_hit:
  assumes "cachedRecord (recordCache s (cacheKeyOf entityName recordId)) = Some r"
  shows "retrieveRecordWithCache h entityName recordId retryCount s =
           (Inr r, trackKey (cacheKeyOf entityName recordId) s)"
  using assms by (subst retrieveRecordWithCache.simps) (simp add: Let_def)

text \<open>
  Without a completed record the call ends in exactly one fetch, after the retries if a
  loading marker is there; when that fetch fails the call fails and the key is gone.
\<close>

lemma retrieve_miss:
  assumes "cachedRecord (recordCache s (cacheKeyOf entityName recordId)) = None"
  shows "fetchLog (snd (retrieveRecordWithCache h entityName recordId retryCount s)) =
           fetchLog s @ [(JStr entityName, JStr recordId)] \<and>
         (retrieveRecord h (length (fetchLog s)) (JStr entityName) (JStr recordId) = None \<longrightarrow>
            fst (retrieveRecordWithCache h entityName recordId retryCount s) = Inl FetchFailed \<and>
            recordCache (snd (retrieveRecordWithCache h entityName recordId retryCount s))
              (cacheKeyOf entityName recordId) = None)"
  using assms
proof (induction h entityName recordId retryCount s rule: retrieveRecordWithCache.induct)
  case (1 h entityName recordId retryCount s)
  let ?key = "cacheKeyOf entityName recordId"
  let ?s1 = "trackKey ?key s"
  show ?case
  proof (cases "cachedLoading (recordCache s ?key) \<and> retryCount < MAX_RETRIES")
    case True
    have ih: "fetchLog (snd (retrieveRecordWithCache h entityName recordId (retryCount + 1) ?s1)) =
           fetchLog ?s1 @ [(JStr entityName, JStr recordId)] \<and>
         (retrieveRecord h (length (fetchLog ?s1)) (JStr entityName) (JStr recordId) = None \<longrightarrow>
            fst (retrieveRecordWithCache h entityName recordId (retryCount + 1) ?s1) = Inl FetchFailed \<and>
            recordCache (snd (retrieveRecordWithCache h entityName recordId (retryCount + 1) ?s1))
              ?key = None)"
      using "1.IH" [of ?key ?s1] True "1.prems" by simp
    obtain res s2 where
      r: "retrieveRecordWithCache h entityName recordId (retryCount + 1) ?s1 = (res, s2)"
      by (metis prod.exhaust)
    have u: "retrieveRecordWithCache h entityName recordId retryCount s =
               (case res of Inl e \<Rightarrow> (Inl e, cacheDelete ?key s2) | Inr r \<Rightarrow> (Inr r, s2))"
      using True "1.prems" r
      by (subst retrieveRecordWithCache.simps) (simp add: Let_def split: sum.splits)
    from ih r show ?thesis unfolding u by (cases res) auto
  next
    case False
    have u: "retrieveRecordWithCache h entityName recordId retryCount s =
               (let s2 = (if cachedLoading (recordCache s ?key) then cacheDelete ?key ?s1 else ?s1);
                    s3 = cachePut ?key \<lparr>entry_record = None, isLoading = Some True\<rparr> s2;
                    s4 = s3\<lparr>fetchLog := fetchLog s3 @ [(JStr entityName, JStr recordId)]\<rparr>
                in case retrieveRecord h (length (fetchLog s3)) (JStr entityName) (JStr recordId) of
                     Some r \<Rightarrow> (Inr r, cachePut ?key \<lparr>entry_record = Some r, isLoading = None\<rparr> s4)
                   | None \<Rightarrow> (Inl FetchFailed, cacheDelete ?key s4))"
      using False "1.prems"
      by (subst retrieveRecordWithCache.simps) (simp add: Let_def)
    show ?thesis unfolding u by (auto simp: Let_def split: option.splits)
  qed
qed

text \<open>What every call leaves behind, whatever its outcome.\<close>

lemma retrieve_post:
  assumes "retrieveRecordWithCache h entityName recordId retryCount s = (res, s')"
  shows "untrackedWrites s' = untrackedWrites s \<and>
         fetchedRecordKeys s' = insert (cacheKeyOf entityName recordId) (fetchedRecordKeys s) \<and>
         console s' = console s \<and>
         (\<forall>k. k \<noteq> cacheKeyOf entityName recordId \<longrightarrow> recordCache s' k = recordCache s k) \<and>
         (case res of
            Inl e \<Rightarrow> recordCache s' (cacheKeyOf entityName recordId) = None
          | Inr r \<Rightarrow> cachedRecord (recordCache s' (cacheKeyOf entityName recordId)) = Some r)"
  using assms
proof (induction h entityName recordId retryCount s arbitrary: res s'
       rule: retrieveRecordWithCache.induct)
  case (1 h entityName recordId retryCount s)
  let ?key = "cacheKeyOf entityName recordId"
  let ?s1 = "trackKey ?key s"
  show ?case
  proof (cases "cachedRecord (recordCache s ?key)")
    case (Some r)
    from retrieve_hit [OF Some, of h retryCount] "1.prems" Some show ?thesis by auto
  next
    case None
    show ?thesis
    proof (cases "cachedLoading (recordCache s ?key) \<and> retryCount < MAX_RETRIES")
      case True
      obtain res2 s2 where
        r: "retrieveRecordWithCache h entityName recordId (retryCount + 1) ?s1 = (res2, s2)"
        by (metis prod.exhaust)
      have ih: "untrackedWrites s2 = untrackedWrites ?s1 \<and>
         fetchedRecordKeys s2 = insert ?key (fetchedRecordKeys ?s1) \<and>
         console s2 = console ?s1 \<and>
         (\<forall>k. k \<noteq> ?key \<longrightarrow> recordCache s2 k = recordCache ?s1 k) \<and>
         (case res2 of
            Inl e \<Rightarrow> recordCache s2 ?key = None
          | Inr r \<Rightarrow> cachedRecord (recordCache s2 ?key) = Some r)"
        using "1.IH" [of ?key ?s1 res2 s2] True None r by simp
      from "1.prems" True None r
      have "(res, s') = (case res2 of Inl e \<Rightarrow> (Inl e, cacheDelete ?key s2) | Inr r \<Rightarrow> (Inr r, s2))"
        by (subst (asm) retrieveRecordWithCache.simps) (simp add: Let_def split: sum.splits)
      with ih show ?thesis by (cases res2) auto
    next
      case False
      with "1.prems" None show ?thesis
        by (subst (asm) retrieveRecordWithCache.simps)
           (auto simp: Let_def split: option.splits if_splits)
    qed
  qed
qed

subsection \<open>A second resolution of the same chain\<close>

lemma cacheExtends_refl: "cacheExtends s s"
  by (simp add: cacheExtends_def)

lemma cacheExtends_trans: "cacheExtends s t \<Longrightarrow> cacheExtends t u \<Longrightarrow> cacheExtends s u"
  by (auto simp: cacheExtends_def)

lemma retrieve_extends:
  assumes "retrieveRecordWithCache h e i n s = (Inr r, s1)"
  shows "cacheExtends s s1 \<and> cachedRecord (recordCache s1 (cacheKeyOf e i)) = Some r \<and>
         cacheKeyOf e i \<in> fetchedRecordKeys s1"
proof -
  note p = retrieve_post [OF assms]
  have "cachedRecord (recordCache s1 k) = Some r0" if "cachedRecord (recordCache s k) = Some r0" for k r0
  proof (cases "k = cacheKeyOf e i")
    case True
    with that retrieve_hit [of s e i r0 h n] assms show ?thesis by simp
  next
    case False
    with p that show ?thesis by simp
  qed
  with p show ?thesis by (auto simp: cacheExtends_def)
qed

lemma hop_found:
  assumes "fetchSingleLevelRecord h cur f s = (Inr (Some (r, e)), s1)"
  shows "cacheExtends s s1 \<and>
         (\<forall>t. cacheExtends s1 t \<longrightarrow> fetchSingleLevelRecord h cur f t = (Inr (Some (r, e)), t))"
proof -
  let ?id = "getAttr cur (''_'' @ f @ ''_value'')"
  let ?en = "getAttr cur (''_'' @ f @ ''_value@Microsoft.Dynamics.CRM.lookuplogicalname'')"
  from assms obtain i where i: "?id = JStr i" "?en = JStr e" "i \<noteq> []" "e \<noteq> []"
    and rr: "retrieveRecordWithCache h e i 0 (trackKey (cacheKeyOf e i) s) = (Inr r, s1)"
    by (auto simp: fetchSingleLevelRecord_def Let_def split: jsval.splits if_splits prod.splits sum.splits)
  note x = retrieve_extends [OF rr]
  have a: "cacheExtends s s1"
    using x by (auto simp: cacheExtends_def)
  have b: "fetchSingleLevelRecord h cur f t = (Inr (Some (r, e)), t)" if "cacheExtends s1 t" for t
  proof -
    from that x have c: "cachedRecord (recordCache t (cacheKeyOf e i)) = Some r"
      and k: "cacheKeyOf e i \<in> fetchedRecordKeys t"
      by (auto simp: cacheExtends_def)
    from retrieve_hit [OF c, of h 0] k i show ?thesis
      by (simp add: fetchSingleLevelRecord_def Let_def trackKey_known)
  qed
  from a b show ?thesis by blast
qed

lemma hop_null:
  assumes "fetchSingleLevelRecord h cur f s = (Inr None, s1)"
  shows "s1 = s \<and> fetchSingleLevelRecord h cur f t = (Inr None, t)"
  using assms
  by (auto simp: fetchSingleLevelRecord_def Let_def split: jsval.splits if_splits prod.splits sum.splits)

lemma levels_again:
  assumes "fetchFurtherLevels h cur fs s = (Inr r, s1)"
  shows "cacheExtends s s1 \<and>
         (\<forall>t. cacheExtends s1 t \<longrightarrow> fetchFurtherLevels h cur fs t = (Inr r, t))"
  using assms
proof (induction fs arbitrary: cur s)
  case Nil
  then show ?case by (simp add: cacheExtends_refl)
next
  case (Cons f fs)
  obtain res sa where hop: "fetchSingleLevelRecord h cur f s = (res, sa)"
    by (metis prod.exhaust)
  show ?case
  proof (cases res)
    case (Inl err)
    with hop Cons.prems show ?thesis by simp
  next
    case (Inr found)
    show ?thesis
    proof (cases found)
      case None
      with Inr hop hop_null [of h cur f s sa] Cons.prems show ?thesis
        by (simp add: cacheExtends_refl)
    next
      case (Some p)
      obtain r1 e where p: "p = (r1, e)" by (cases p)
      from hop Inr Some p have hop': "fetchSingleLevelRecord h cur f s = (Inr (Some (r1, e)), sa)"
        by simp
      with Cons.prems have rest: "fetchFurtherLevels h r1 fs sa = (Inr r, s1)" by simp
      note ih = Cons.IH [OF rest]
      note hf = hop_found [OF hop']
      from ih hf have a: "cacheExtends s s1" by (blast intro: cacheExtends_trans)
      have b: "fetchFurtherLevels h cur (f # fs) t = (Inr r, t)" if t: "cacheExtends s1 t" for t
      proof -
        from ih t have "cacheExtends sa t" by (blast intro: cacheExtends_trans)
        with hf have "fetchSingleLevelRecord h cur f t = (Inr (Some (r1, e)), t)" by blast
        moreover from ih t have "fetchFurtherLevels h r1 fs t = (Inr r, t)" by blast
        ultimately show ?thesis by simp
      qed
      from a b show ?thesis by blast
    qed
  qed
qed

lemma fetchRelatedRecord_again:
  assumes "fetchRelatedRecord h rcd lookupPath s = (Some r, s1)"
  shows "fetchRelatedRecord h rcd lookupPath s1 = (Some r, s1)"
proof -
  from assms obtain cur f fs r1 e sa where
    rc: "rcd = Some cur" and lp: "lookupPath = f # fs"
    and hop: "fetchSingleLevelRecord h cur f s = (Inr (Some (r1, e)), sa)"
    and rest: "fetchFurtherLevels h r1 fs sa = (Inr r, s1)"
    by (auto simp: fetchRelatedRecord_def split: option.splits list.splits prod.splits sum.splits)
  note hf = hop_found [OF hop]
  note la = levels_again [OF rest]
  from hf la have "fetchSingleLevelRecord h cur f s1 = (Inr (Some (r1, e)), s1)" by blast
  moreover from la have "fetchFurtherLevels h r1 fs s1 = (Inr r, s1)"
    by (blast intro: cacheExtends_refl)
  ultimately show ?thesis using rc lp by (simp add: fetchRelatedRecord_def)
qed

subsection \<open>Tracked writes\<close>

lemma writesTracked_refl: "writesTracked s s"
  by (simp add: writesTracked_def)

lemma writesTracked_trans: "writesTracked s t \<Longrightarrow> writesTracked t u \<Longrightarrow> writesTracked s u"
  by (auto simp: writesTracked_def)

lemma writesTracked_trackKey: "writesTracked s (trackKey k s)"
  by (auto simp: writesTracked_def)

lemma writesTracked_logMessage: "writesTracked s t \<Longrightarrow> writesTracked s (logMessage d t)"
  by (auto simp: writesTracked_def)

lemma writesTracked_fetchLog: "writesTracked s t \<Longrightarrow> writesTracked s (t\<lparr>fetchLog := l\<rparr>)"
  by (auto simp: writesTracked_def)

lemma retrieve_tracked:
  assumes "retrieveRecordWithCache h entityName recordId retryCount s = (res, s')"
  shows "writesTracked s s'"
  using retrieve_post [OF assms] by (auto simp: writesTracked_def)

lemma hop_tracked:
  assumes "fetchSingleLevelRecord h cur f s = (res, s')"
  shows "writesTracked s s'"
  using assms
  by (auto simp: fetchSingleLevelRecord_def Let_def writesTracked_refl
           split: jsval.splits prod.splits sum.splits if_splits
           dest!: retrieve_tracked intro: writesTracked_trans [OF writesTracked_trackKey])

lemma levels_tracked:
  assumes "fetchFurtherLevels h cur fs s = (res, s')"
  shows "writesTracked s s'"
  using assms
proof (induction fs arbitrary: cur s)
  case Nil
  then show ?case by (simp add: writesTracked_refl)
next
  case (Cons f fs)
  obtain hr sa where hop: "fetchSingleLevelRecord h cur f s = (hr, sa)"
    by (metis prod.exhaust)
  note a = hop_tracked [OF hop]
  show ?case
  proof (cases hr)
    case (Inl err)
    with hop a Cons.prems show ?thesis by simp
  next
    case (Inr found)
    show ?thesis
    proof (cases found)
      case None
      with Inr hop a Cons.prems show ?thesis by simp
    next
      case (Some p)
      obtain r1 e where p: "p = (r1, e)" by (cases p)
      from Cons.prems hop Inr Some p have "fetchFurtherLevels h r1 fs sa = (res, s')" by simp
      from a Cons.IH [OF this] show ?thesis by (rule writesTracked_trans)
    qed
  qed
qed

lemma related_tracked:
  assumes "fetchRelatedRecord h rcd lookupPath s = (res, s')"
  shows "writesTracked s s'"
  using assms
  by (auto simp: fetchRelatedRecord_def writesTracked_refl
           split: option.splits list.splits sum.splits prod.splits
           dest!: hop_tracked levels_tracked
           intro: writesTracked_logMessage writesTracked_trans)

lemma resolveField_tracked:
  assumes "resolveFieldValue h r ref s = (v, s')"
  shows "writesTracked s s'"
  using assms
  by (auto simp: resolveFieldValue_def Let_def writesTracked_refl
           split: prod.splits option.splits if_splits dest!: related_tracked)

lemma resolveAll_tracked:
  assumes "resolveAllFields h r refs m s = (m', s')"
  shows "writesTracked s s'"
  using assms
proof (induction refs arbitrary: m s)
  case Nil
  then show ?case by (simp add: writesTracked_refl)
next
  case (Cons ref refs)
  obtain v s1 where f: "resolveFieldValue h r ref s = (v, s1)" by (metis prod.exhaust)
  with Cons.prems have "resolveAllFields h r refs (m(fieldPath ref \<mapsto> v)) s1 = (m', s')" by simp
  from resolveField_tracked [OF f] Cons.IH [OF this] show ?case by (rule writesTracked_trans)
qed

lemma replace_tracked:
  assumes "replaceFieldRefs h vals refs tx s = (tx', s')"
  shows "writesTracked s s'"
  using assms
proof (induction refs arbitrary: tx s)
  case Nil
  then show ?case by (simp add: writesTracked_refl)
next
  case (Cons ref refs)
  from Cons.prems obtain t1 s1 where
    "replaceFieldRefs h vals refs t1 s1 = (tx', s')" and "s1 = s \<or> (\<exists>d. s1 = logMessage d s)"
    by (auto simp: Let_def split: option.splits prod.splits if_splits)
  then show ?case
    using Cons.IH writesTracked_logMessage [OF writesTracked_refl] writesTracked_trans by blast
qed

lemma asyncReplace_tracked:
  assumes "asyncReplaceDynamicValues h rcd text s = (text', s')"
  shows "writesTracked s s'"
  using assms
  by (auto simp: asyncReplaceDynamicValues_def Let_def writesTracked_refl
           split: option.splits prod.splits if_splits
           dest!: resolveAll_tracked replace_tracked intro: writesTracked_trans)

subsection \<open>The evaluator leaves the record cache alone\<close>

lemma EE_retrieve_untouched:
  assumes "EE_retrieveRecord h e i s = (res, s')"
  shows "cacheUntouched s s'"
  using assms by (auto simp: EE_retrieveRecord_def Let_def cacheUntouched_def split: option.splits)

lemma EE_levels_untouched:
  assumes "EE_fetchFurtherLevels h r ls s = (res, s')"
  shows "cacheUntouched s s'"
  using assms
proof (induction ls arbitrary: r s)
  case Nil
  then show ?case by (simp add: cacheUntouched_def)
next
  case (Cons l ls)
  then show ?case
    by (fastforce simp: Let_def cacheUntouched_def split: if_splits prod.splits option.splits
                  dest!: EE_retrieve_untouched)
qed

lemma EE_related_untouched:
  assumes "EE_fetchRelatedRecord h ev lookupPath s = (res, s')"
  shows "cacheUntouched s s'"
  using assms
  by (fastforce simp: EE_fetchRelatedRecord_def Let_def cacheUntouched_def
           split: list.splits if_splits prod.splits option.splits
           dest!: EE_retrieve_untouched EE_levels_untouched)

lemma getRelated_untouched:
  assumes "getRelatedFieldValue h path (ev, s) = (v, ev', s')"
  shows "cacheUntouched s s' \<and> ev_record ev' = ev_record ev"
  using assms
  by (fastforce simp: getRelatedFieldValue_def Let_def cacheUntouched_def
           split: option.splits prod.splits dest!: EE_related_untouched)

lemma createData_untouched:
  assumes "createDataObjectAsync h refs data (ev, s) = (data', ev', s')"
  shows "cacheUntouched s s' \<and> ev_record ev' = ev_record ev"
  using assms
proof (induction refs arbitrary: data ev s)
  case Nil
  then show ?case by (simp add: cacheUntouched_def)
next
  case (Cons r rs)
  show ?case
  proof (cases "CHR ''.'' \<in> set r")
    case True
    obtain v ev1 s1 where g: "getRelatedFieldValue h r (ev, s) = (v, ev1, s1)"
      by (metis prod.exhaust)
    with True Cons.prems have "createDataObjectAsync h rs (dataSet data r (convertValueToProperType v)) (ev1, s1) = (data', ev', s')"
      by simp
    from Cons.IH [OF this] getRelated_untouched [OF g] show ?thesis
      by (auto simp: cacheUntouched_def)
  next
    case False
    with Cons show ?thesis by simp
  qed
qed

lemma evaluateAsync_untouched:
  assumes "evaluateAsync h expression (ev, s) = (b, ev', s')"
  shows "cacheUntouched s s' \<and> ev_record ev' = ev_record ev"
  using assms
  by (auto simp: evaluateAsync_def Let_def cacheUntouched_def split: if_splits prod.splits
           dest!: createData_untouched)

lemma cacheUntouched_tracked: "cacheUntouched s t \<Longrightarrow> writesTracked s t"
  by (simp add: cacheUntouched_def writesTracked_def)

lemma visibility_tracked:
  assumes "visibilityOf h expr (evo, s) = (b, evo', s')"
  shows "writesTracked s s'"
  using assms
  by (auto simp: visibilityOf_def writesTracked_refl split: option.splits if_splits prod.splits
           dest!: evaluateAsync_untouched intro: cacheUntouched_tracked)

lemma resolveOne_tracked:
  assumes "resolveOneConfig h rcd config (evo, s) = (out, evo', s')"
  shows "writesTracked s s'"
proof -
  from assms obtain s1 s2 s3 s4 l t u a b where
    "asyncReplaceDynamicValues h rcd (Some (theia_buttonlabel config)) s = (l, s1)"
    "asyncReplaceDynamicValues h rcd (theia_buttontooltip config) s1 = (t, s2)"
    "asyncReplaceDynamicValues h rcd (Some (theia_url config)) s2 = (u, s3)"
    "asyncReplaceDynamicValues h rcd (theia_actionscript config) s3 = (a, s4)"
    "visibilityOf h (theia_visibilityexpression config) (evo, s4) = (b, evo', s')"
    by (auto simp: resolveOneConfig_def split: prod.splits)
  then show ?thesis
    by (blast dest: asyncReplace_tracked visibility_tracked intro: writesTracked_trans)
qed

lemma resolveSorted_tracked:
  assumes "resolveSortedConfigs h rcd configs (evo, s) = (out, evo', s')"
  shows "writesTracked s s'"
  using assms
proof (induction configs arbitrary: evo s out)
  case Nil
  then show ?case by (simp add: writesTracked_refl)
next
  case (Cons c cs)
  obtain o1 evo1 s1 where r: "resolveOneConfig h rcd c (evo, s) = (o1, evo1, s1)"
    by (metis prod.exhaust)
  obtain out2 where l: "resolveSortedConfigs h rcd cs (evo1, s1) = (out2, evo', s')"
    using Cons.prems r by (auto split: prod.splits)
  from resolveOne_tracked [OF r] Cons.IH [OF l] show ?case by (rule writesTracked_trans)
qed

lemma deleteFetchedKeys_clears:
  assumes "writesTracked s t"
  shows "recordCache (deleteFetchedKeys t) k = (if k \<in> fetchedRecordKeys t then None else recordCache s k)"
  using assms by (auto simp: deleteFetchedKeys_def writesTracked_def restrict_map_def)

subsection \<open>A hop that is missing after the first\<close>

text \<open>
  The component goes on with the record it has reached; the evaluator gives up with
  \<open>null\<close>.
\<close>

lemma fetchFurtherLevels_missing_hop:
  assumes "fetchSingleLevelRecord h cur f s = (Inr None, s')"
  shows "fetchFurtherLevels h cur (f # fs) s = (Inr cur, s)"
  using assms hop_null [OF assms] by simp

lemma EE_fetchFurtherLevels_missing_hop:
  assumes "\<not> truthy (getAttr result (''_'' @ l @ ''_value'')) \<or>
           \<not> truthy (getAttr result (''_'' @ l @ ''_value@Microsoft.Dynamics.CRM.lookuplogicalname''))"
  shows "EE_fetchFurtherLevels h result (l # ls) s = (None, s)"
  using assms by (auto simp: Let_def)

subsection \<open>Replacing a text by itself\<close>

lemma findFirst_split: "findFirst pat tx = Some (pre, post) \<Longrightarrow> tx = pre @ pat @ post"
proof (induction tx arbitrary: pre)
  case Nil
  then show ?case by (simp split: if_splits)
next
  case (Cons c cs)
  show ?case
  proof (cases "prefix pat (c # cs)")
    case True
    with Cons.prems have "pre = []" "post = drop (length pat) (c # cs)" by simp_all
    moreover from True obtain zs where "c # cs = pat @ zs" by (auto simp: prefix_def)
    ultimately show ?thesis by simp
  next
    case False
    with Cons.prems obtain b where "findFirst pat cs = Some (b, post)" "pre = c # b"
      by (auto split: option.splits)
    with Cons.IH [of b] show ?thesis by simp
  qed
qed

lemma getSubstitution_plain:
  "CHR ''$'' \<notin> set repl \<Longrightarrow> getSubstitution matched pre post repl = repl"
  by (induction matched pre post repl rule: getSubstitution.induct) auto

lemma jsReplace_same: "CHR ''$'' \<notin> set pat \<Longrightarrow> jsReplace tx pat pat = tx"
  by (auto simp: jsReplace_def getSubstitution_plain split: option.splits dest: findFirst_split)

text \<open>
  A template whose references are all unresolved and free of dollar signs comes back as
  it is.
\<close>

lemma replace_unresolved:
  assumes "list_all (\<lambda>ref. mapGet vals (fieldPath ref) = JUndefined \<and> CHR ''$'' \<notin> set (fullMatch ref)) refs"
  shows "replaceFieldRefs h vals refs tx s = (tx, s)"
  using assms by (induction refs arbitrary: tx) (simp_all add: jsReplace_same)

text \<open>
  A template all of whose tokens name attributes that the base record does not have, and
  are free of dots and dollar signs, comes back as it is, and nothing else happens.
\<close>

lemma resolveAll_plain:
  assumes "list_all (\<lambda>ref. CHR ''.'' \<notin> set (fieldPath ref)) refs"
  shows "resolveAllFields h r refs m s =
           (foldl (\<lambda>m ref. m(fieldPath ref \<mapsto> getAttr r (fieldPath ref))) m refs, s)"
  using assms by (induction refs arbitrary: m) (simp_all add: resolveFieldValue_def)

lemma foldl_paths:
  "mapGet (foldl (\<lambda>m ref. m(fieldPath ref \<mapsto> getAttr r (fieldPath ref))) m refs) p =
     (if p \<in> fieldPath ` set refs then getAttr r p else mapGet m p)"
  by (induction refs arbitrary: m) (auto simp: mapGet_def)

lemma asyncReplace_unresolved:
  assumes "list_all (\<lambda>ref. CHR ''.'' \<notin> set (fieldPath ref) \<and>
                          getAttr r (fieldPath ref) = JUndefined \<and>
                          CHR ''$'' \<notin> set (fullMatch ref)) (extractTokens tx)"
  shows "asyncReplaceDynamicValues h (Some r) (Some tx) s = (tx, s)"
proof (cases "tx = []")
  case True
  then show ?thesis by (simp add: asyncReplaceDynamicValues_def)
next
  case False
  let ?refs = "extractTokens tx"
  let ?vals = "foldl (\<lambda>m ref. m(fieldPath ref \<mapsto> getAttr r (fieldPath ref))) Map.empty ?refs"
  from assms have "list_all (\<lambda>ref. CHR ''.'' \<notin> set (fieldPath ref)) ?refs"
    by (simp add: list_all_iff)
  then have 1: "resolveAllFields h r ?refs Map.empty s = (?vals, s)"
    by (rule resolveAll_plain)
  from assms have "list_all (\<lambda>ref. mapGet ?vals (fieldPath ref) = JUndefined \<and>
                                 CHR ''$'' \<notin> set (fullMatch ref)) ?refs"
    by (auto simp: list_all_iff foldl_paths)
  then have 2: "replaceFieldRefs h ?vals ?refs tx s = (tx, s)"
    by (rule replace_unresolved)
  from False 1 2 show ?thesis by (simp add: asyncReplaceDynamicValues_def Let_def)
qed

subsection \<open>The pass over the sorted configurations\<close>

lemma passOutcomes_inputs: "map fst (passOutcomes h rcd cs es) = cs"
  by (induction cs arbitrary: es) (auto split: prod.splits)

lemma resolveSortedConfigs_outcomes:
  "fst (resolveSortedConfigs h rcd cs es) =
     map (\<lambda>(c, rc, vis). rc\<lparr>isVisible := Some vis\<rparr>)
       (filter (\<lambda>(c, rc, vis). vis) (passOutcomes h rcd cs es))"
proof (induction cs arbitrary: es)
  case Nil
  then show ?case by simp
next
  case (Cons a cs)
  obtain rc vis es1 where r: "resolveOneConfig h rcd a es = ((rc, vis), es1)"
    by (metis prod.exhaust)
  obtain out es2 where l: "resolveSortedConfigs h rcd cs es1 = (out, es2)"
    by (metis prod.exhaust)
  from Cons.IH [of es1] l
  have "out = map (\<lambda>(c, rc, vis). rc\<lparr>isVisible := Some vis\<rparr>)
                (filter (\<lambda>(c, rc, vis). vis) (passOutcomes h rcd cs es1))"
    by simp
  with r l show ?case by simp
qed

lemma resolveOneConfig_fields:
  assumes "resolveOneConfig h rcd c es = ((rc, vis), es')"
  shows "theia_buttonposition rc = theia_buttonposition c \<and>
         theia_tablename rc = theia_tablename c \<and>
         theia_buttonicon rc = theia_buttonicon c \<and>
         theia_visibilityexpression rc = theia_visibilityexpression c \<and>
         theia_showaslink rc = theia_showaslink c \<and>
         isVisible rc = isVisible c"
  using assms by (auto simp: resolveOneConfig_def split: prod.splits)

lemma passOutcomes_fields:
  assumes "(c, rc, vis) \<in> set (passOutcomes h rcd cs es)"
  shows "theia_buttonposition rc = theia_buttonposition c \<and>
         theia_tablename rc = theia_tablename c \<and>
         theia_buttonicon rc = theia_buttonicon c \<and>
         theia_visibilityexpression rc = theia_visibilityexpression c \<and>
         theia_showaslink rc = theia_showaslink c \<and>
         isVisible rc = isVisible c"
  using assms
proof (induction cs arbitrary: es)
  case Nil
  then show ?case by simp
next
  case (Cons a cs)
  obtain rc' vis' es1 where r: "resolveOneConfig h rcd a es = ((rc', vis'), es1)"
    by (metis prod.exhaust)
  with Cons.prems
  have "(c, rc, vis) = (a, rc', vis') \<or> (c, rc, vis) \<in> set (passOutcomes h rcd cs es1)"
    by simp
  then show ?case
  proof
    assume "(c, rc, vis) = (a, rc', vis')"
    with resolveOneConfig_fields [OF r] show ?thesis by simp
  next
    assume "(c, rc, vis) \<in> set (passOutcomes h rcd cs es1)"
    then show ?thesis by (rule Cons.IH)
  qed
qed

lemma outcomes_positions:
  "map (\<lambda>(c, rc, vis). theia_buttonposition rc) (passOutcomes h rcd cs es) =
     map theia_buttonposition cs"
proof -
  have "map (\<lambda>(c, rc, vis). theia_buttonposition rc) (passOutcomes h rcd cs es) =
        map (\<lambda>(c, rc, vis). theia_buttonposition c) (passOutcomes h rcd cs es)"
    using passOutcomes_fields [of _ _ _ h rcd cs es] by (intro map_cong) auto
  also have "\<dots> = map theia_buttonposition (map fst (passOutcomes h rcd cs es))"
    by (simp add: case_prod_beta comp_def)
  finally show ?thesis by (simp add: passOutcomes_inputs)
qed

lemma resolved_sorted:
  assumes "sorted (map theia_buttonposition cs)"
  shows "sorted (map theia_buttonposition (fst (resolveSortedConfigs h rcd cs es)))"
proof -
  have "sorted (map (\<lambda>(c, rc, vis). theia_buttonposition rc) (passOutcomes h rcd cs es))"
    using assms by (simp add: outcomes_positions)
  then have "sorted (map (\<lambda>(c, rc, vis). theia_buttonposition rc)
                      (filter (\<lambda>(c, rc, vis). vis) (passOutcomes h rcd cs es)))"
    by (rule sorted_filter)
  then show ?thesis
    by (simp add: resolveSortedConfigs_outcomes case_prod_unfold comp_def)
qed

subsection \<open>The timestamp pattern\<close>

lemma matchClasses_iff:
  "matchClasses ks s = Some rest \<longleftrightarrow> (\<exists>pre. s = pre @ rest \<and> list_all2 inClass ks pre)"
proof (induction ks arbitrary: s)
  case Nil
  then show ?case by auto
next
  case (Cons k ks)
  show ?case
  proof (cases s)
    case Nil
    then show ?thesis by (auto simp: list_all2_Cons1)
  next
    case (Cons c cs)
    show ?thesis
    proof
      assume "matchClasses (k # ks) s = Some rest"
      with Cons have "inClass k c" and "matchClasses ks cs = Some rest"
        by (auto split: if_splits)
      with Cons.IH [of cs] obtain pre where "cs = pre @ rest" "list_all2 inClass ks pre" by blast
      with Cons \<open>inClass k c\<close> have "s = (c # pre) @ rest \<and> list_all2 inClass (k # ks) (c # pre)"
        by simp
      then show "\<exists>pre. s = pre @ rest \<and> list_all2 inClass (k # ks) pre" by blast
    next
      assume "\<exists>pre. s = pre @ rest \<and> list_all2 inClass (k # ks) pre"
      then obtain pre where p: "s = pre @ rest" "list_all2 inClass (k # ks) pre" by blast
      then obtain z zs where z: "pre = z # zs" "inClass k z" "list_all2 inClass ks zs"
        by (auto simp: list_all2_Cons1)
      with p Cons have "c = z" "cs = zs @ rest" by simp_all
      with z Cons.IH [of cs] have "matchClasses ks cs = Some rest" by blast
      with Cons z \<open>c = z\<close> show "matchClasses (k # ks) s = Some rest" by simp
    qed
  qed
qed

lemma isDateString_iff:
  "isDateString str \<longleftrightarrow>
     (\<exists>pre tz. str = pre @ tz \<and> list_all2 inClass dateTimeClasses pre \<and>
        (tz = [] \<or> tz = ''Z'' \<or> list_all2 inClass offsetClasses tz))"
proof
  assume d: "isDateString str"
  then obtain rest where m: "matchClasses dateTimeClasses str = Some rest"
    unfolding isDateString_def by (cases "matchClasses dateTimeClasses str") simp_all
  with d have r: "rest = [] \<or> rest = ''Z'' \<or> matchClasses offsetClasses rest = Some []"
    unfolding isDateString_def by simp
  from m obtain pre where p: "str = pre @ rest" "list_all2 inClass dateTimeClasses pre"
    unfolding matchClasses_iff by blast
  from r have "rest = [] \<or> rest = ''Z'' \<or> list_all2 inClass offsetClasses rest"
    unfolding matchClasses_iff by auto
  with p show "\<exists>pre tz. str = pre @ tz \<and> list_all2 inClass dateTimeClasses pre \<and>
        (tz = [] \<or> tz = ''Z'' \<or> list_all2 inClass offsetClasses tz)" by blast
next
  assume "\<exists>pre tz. str = pre @ tz \<and> list_all2 inClass dateTimeClasses pre \<and>
        (tz = [] \<or> tz = ''Z'' \<or> list_all2 inClass offsetClasses tz)"
  then obtain pre tz where p: "str = pre @ tz" "list_all2 inClass dateTimeClasses pre"
    and r: "tz = [] \<or> tz = ''Z'' \<or> list_all2 inClass offsetClasses tz" by blast
  from p have m: "matchClasses dateTimeClasses str = Some tz"
    unfolding matchClasses_iff by blast
  from r have "tz = [] \<or> tz = ''Z'' \<or> matchClasses offsetClasses tz = Some []"
    unfolding matchClasses_iff by auto
  with m show "isDateString str" unfolding isDateString_def by simp
qed

lemma class_step:
  assumes "list_all2 inClass (k # ks) pre"
  obtains c cs where "pre = c # cs" "inClass k c" "list_all2 inClass ks cs"
  using assms by (cases pre) auto

lemma offsetClasses_shape:
  "list_all2 inClass offsetClasses tz \<longleftrightarrow>
     (\<exists>sg o1 o2 o3 o4. tz = [sg, o1, o2, CHR '':'', o3, o4] \<and>
        (sg = CHR ''+'' \<or> sg = CHR ''-'') \<and> list_all isDigit [o1, o2, o3, o4])"
proof
  assume "list_all2 inClass offsetClasses tz"
  then show "\<exists>sg o1 o2 o3 o4. tz = [sg, o1, o2, CHR '':'', o3, o4] \<and>
        (sg = CHR ''+'' \<or> sg = CHR ''-'') \<and> list_all isDigit [o1, o2, o3, o4]"
    unfolding offsetClasses_def by (elim class_step) simp
next
  assume "\<exists>sg o1 o2 o3 o4. tz = [sg, o1, o2, CHR '':'', o3, o4] \<and>
        (sg = CHR ''+'' \<or> sg = CHR ''-'') \<and> list_all isDigit [o1, o2, o3, o4]"
  then show "list_all2 inClass offsetClasses tz"
    unfolding offsetClasses_def by auto
qed

lemma dateTimeClasses_shape:
  "list_all2 inClass dateTimeClasses pre \<longleftrightarrow>
     (\<exists>y1 y2 y3 y4 m1 m2 d1 d2 sep h1 h2 n1 n2 s1 s2.
        pre = [y1, y2, y3, y4, CHR ''-'', m1, m2, CHR ''-'', d1, d2, sep,
               h1, h2, CHR '':'', n1, n2, CHR '':'', s1, s2] \<and>
        list_all isDigit [y1, y2, y3, y4, m1, m2, d1, d2, h1, h2, n1, n2, s1, s2] \<and>
        (sep = CHR ''T'' \<or> isSpace sep))"
proof
  assume "list_all2 inClass dateTimeClasses pre"
  then show "\<exists>y1 y2 y3 y4 m1 m2 d1 d2 sep h1 h2 n1 n2 s1 s2.
        pre = [y1, y2, y3, y4, CHR ''-'', m1, m2, CHR ''-'', d1, d2, sep,
               h1, h2, CHR '':'', n1, n2, CHR '':'', s1, s2] \<and>
        list_all isDigit [y1, y2, y3, y4, m1, m2, d1, d2, h1, h2, n1, n2, s1, s2] \<and>
        (sep = CHR ''T'' \<or> isSpace sep)"
    unfolding dateTimeClasses_def by (elim class_step) simp
next
  assume "\<exists>y1 y2 y3 y4 m1 m2 d1 d2 sep h1 h2 n1 n2 s1 s2.
        pre = [y1, y2, y3, y4, CHR ''-'', m1, m2, CHR ''-'', d1, d2, sep,
               h1, h2, CHR '':'', n1, n2, CHR '':'', s1, s2] \<and>
        list_all isDigit [y1, y2, y3, y4, m1, m2, d1, d2, h1, h2, n1, n2, s1, s2] \<and>
        (sep = CHR ''T'' \<or> isSpace sep)"
  then show "list_all2 inClass dateTimeClasses pre"
    unfolding dateTimeClasses_def by auto
qed

lemma isDateString_shape:
  "isDateString str \<longleftrightarrow>
     (\<exists>y1 y2 y3 y4 m1 m2 d1 d2 sep h1 h2 n1 n2 s1 s2 tz.
        str = [y1, y2, y3, y4, CHR ''-'', m1, m2, CHR ''-'', d1, d2, sep,
               h1, h2, CHR '':'', n1, n2, CHR '':'', s1, s2] @ tz \<and>
        list_all isDigit [y1, y2, y3, y4, m1, m2, d1, d2, h1, h2, n1, n2, s1, s2] \<and>
        (sep = CHR ''T'' \<or> isSpace sep) \<and>
        (tz = [] \<or> tz = ''Z'' \<or>
         (\<exists>sg o1 o2 o3 o4. tz = [sg, o1, o2, CHR '':'', o3, o4] \<and>
            (sg = CHR ''+'' \<or> sg = CHR ''-'') \<and> list_all isDigit [o1, o2, o3, o4])))"
  (is "_ \<longleftrightarrow> ?shape")
proof
  assume "isDateString str"
  then obtain pre tz where p: "str = pre @ tz" "list_all2 inClass dateTimeClasses pre"
    and r: "tz = [] \<or> tz = ''Z'' \<or> list_all2 inClass offsetClasses tz"
    unfolding isDateString_iff by blast
  from p(2) obtain y1 y2 y3 y4 m1 m2 d1 d2 sep h1 h2 n1 n2 s1 s2 where
    pre: "pre = [y1, y2, y3, y4, CHR ''-'', m1, m2, CHR ''-'', d1, d2, sep,
                 h1, h2, CHR '':'', n1, n2, CHR '':'', s1, s2]"
    and dg: "list_all isDigit [y1, y2, y3, y4, m1, m2, d1, d2, h1, h2, n1, n2, s1, s2]"
    and sp: "sep = CHR ''T'' \<or> isSpace sep"
    unfolding dateTimeClasses_shape by blast
  from r have tz: "tz = [] \<or> tz = ''Z'' \<or>
         (\<exists>sg o1 o2 o3 o4. tz = [sg, o1, o2, CHR '':'', o3, o4] \<and>
            (sg = CHR ''+'' \<or> sg = CHR ''-'') \<and> list_all isDigit [o1, o2, o3, o4])"
    unfolding offsetClasses_shape .
  from p(1) pre have "str = [y1, y2, y3, y4, CHR ''-'', m1, m2, CHR ''-'', d1, d2, sep,
               h1, h2, CHR '':'', n1, n2, CHR '':'', s1, s2] @ tz" by simp
  with dg sp tz show ?shape by (intro exI conjI)
next
  assume ?shape
  then obtain y1 y2 y3 y4 m1 m2 d1 d2 sep h1 h2 n1 n2 s1 s2 tz where
    str: "str = [y1, y2, y3, y4, CHR ''-'', m1, m2, CHR ''-'', d1, d2, sep,
               h1, h2, CHR '':'', n1, n2, CHR '':'', s1, s2] @ tz"
    and dg: "list_all isDigit [y1, y2, y3, y4, m1, m2, d1, d2, h1, h2, n1, n2, s1, s2]"
    and sp: "sep = CHR ''T'' \<or> isSpace sep"
    and tz: "tz = [] \<or> tz = ''Z'' \<or>
         (\<exists>sg o1 o2 o3 o4. tz = [sg, o1, o2, CHR '':'', o3, o4] \<and>
            (sg = CHR ''+'' \<or> sg = CHR ''-'') \<and> list_all isDigit [o1, o2, o3, o4])"
    by (elim exE conjE)
  from dg sp have "list_all2 inClass dateTimeClasses
      [y1, y2, y3, y4, CHR ''-'', m1, m2, CHR ''-'', d1, d2, sep,
       h1, h2, CHR '':'', n1, n2, CHR '':'', s1, s2]"
    unfolding dateTimeClasses_shape by (intro exI conjI) (rule refl)
  moreover from tz have "tz = [] \<or> tz = ''Z'' \<or> list_all2 inClass offsetClasses tz"
    unfolding offsetClasses_shape .
  ultimately show "isDateString str"
    unfolding isDateString_iff using str by blast
qed

subsection \<open>The evaluator against a store that does not change\<close>

lemma EE_retrieve_store:
  assumes "\<forall>n. retrieveRecord h n = store"
  shows "fst (EE_retrieveRecord h e i s) = store e i"
  using assms by (auto simp: EE_retrieveRecord_def Let_def split: option.splits)

lemma EE_levels_chain:
  assumes "\<forall>n. retrieveRecord h n = store"
  shows "fst (EE_fetchFurtherLevels h r ls s) = chainFrom store r ls"
proof (induction ls arbitrary: r s)
  case Nil
  then show ?case by simp
next
  case (Cons l ls)
  show ?case
  proof (cases "truthy (getAttr r (idAttr l)) \<and> truthy (getAttr r (typeAttr l))")
    case False
    then show ?thesis by (auto simp: Let_def idAttr_def typeAttr_def)
  next
    case True
    obtain res s1 where
      e: "EE_retrieveRecord h (getAttr r (typeAttr l)) (getAttr r (idAttr l)) s = (res, s1)"
      by (metis prod.exhaust)
    with EE_retrieve_store [OF assms, of "getAttr r (typeAttr l)" "getAttr r (idAttr l)" s]
    have res: "res = store (getAttr r (typeAttr l)) (getAttr r (idAttr l))" by simp
    show ?thesis
    proof (cases res)
      case None
      with True e res show ?thesis by (simp add: Let_def idAttr_def typeAttr_def)
    next
      case (Some target)
      with res have a: "store (getAttr r (typeAttr l)) (getAttr r (idAttr l)) = Some target" by simp
      from e Some have e': "EE_retrieveRecord h (getAttr r (typeAttr l)) (getAttr r (idAttr l)) s = (Some target, s1)"
        by simp
      from True a e' Cons.IH [of target s1] show ?thesis
        by (simp add: Let_def idAttr_def typeAttr_def)
    qed
  qed
qed

lemma EE_related_chain:
  assumes "\<forall>n. retrieveRecord h n = store"
  shows "fst (EE_fetchRelatedRecord h ev lookups s) = chainRecord store (ev_record ev) lookups"
proof (cases lookups)
  case Nil
  then show ?thesis by (simp add: EE_fetchRelatedRecord_def chainRecord_def)
next
  case (Cons l ls)
  let ?r = "ev_record ev"
  show ?thesis
  proof (cases "truthy (getAttr ?r (idAttr l)) \<and> truthy (getAttr ?r (typeAttr l))")
    case False
    with Cons show ?thesis
      by (auto simp: EE_fetchRelatedRecord_def chainRecord_def Let_def idAttr_def typeAttr_def)
  next
    case True
    obtain res s1 where
      e: "EE_retrieveRecord h (getAttr ?r (typeAttr l)) (getAttr ?r (idAttr l)) s = (res, s1)"
      by (metis prod.exhaust)
    with EE_retrieve_store [OF assms, of "getAttr ?r (typeAttr l)" "getAttr ?r (idAttr l)" s]
    have res: "res = store (getAttr ?r (typeAttr l)) (getAttr ?r (idAttr l))" by simp
    show ?thesis
    proof (cases res)
      case None
      with True e res Cons show ?thesis
        by (simp add: EE_fetchRelatedRecord_def chainRecord_def Let_def idAttr_def typeAttr_def)
    next
      case (Some target)
      with res have a: "store (getAttr ?r (typeAttr l)) (getAttr ?r (idAttr l)) = Some target" by simp
      from e Some have e': "EE_retrieveRecord h (getAttr ?r (typeAttr l)) (getAttr ?r (idAttr l)) s = (Some target, s1)"
        by simp
      from True a e' Cons EE_levels_chain [OF assms, of target ls s1] show ?thesis
        by (simp add: EE_fetchRelatedRecord_def chainRecord_def Let_def idAttr_def typeAttr_def)
    qed
  qed
qed

lemma splitOn_plain: "c \<notin> set x \<Longrightarrow> splitOn c x = [x]"
  by (induction x) auto

lemma splitOn_append: "c \<notin> set x \<Longrightarrow> splitOn c (x @ c # ys) = x # splitOn c ys"
  by (induction x) auto

lemma splitOn_segments: "x \<in> set (splitOn c s) \<Longrightarrow> c \<notin> set x"
proof (induction s arbitrary: x)
  case Nil
  then show ?case by simp
next
  case (Cons a s)
  then show ?case
    by (cases "splitOn c s") (auto split: if_splits)
qed

lemma splitOn_joinWith:
  assumes "xs \<noteq> []" and "\<forall>x\<in>set xs. c \<notin> set x"
  shows "splitOn c (joinWith c xs) = xs"
  using assms
proof (induction c xs rule: joinWith.induct)
  case (1 c)
  then show ?case by simp
next
  case (2 c x)
  then show ?case by (simp add: splitOn_plain)
next
  case (3 c x y ys)
  then show ?case by (simp add: splitOn_append)
qed

lemma lookupPath_key:
  assumes "CHR ''.'' \<in> set path"
  shows "splitOn CHR ''.'' (joinWith CHR ''.'' (butlast (splitOn CHR ''.'' path))) =
           butlast (splitOn CHR ''.'' path)"
proof (rule splitOn_joinWith)
  from splitOn_length [OF assms] show "butlast (splitOn CHR ''.'' path) \<noteq> []"
    by (cases "splitOn CHR ''.'' path" rule: rev_cases) auto
  show "\<forall>x\<in>set (butlast (splitOn CHR ''.'' path)). CHR ''.'' \<notin> set x"
    using splitOn_segments [of _ "CHR ''.''" path] by (auto dest: in_set_butlastD)
qed

lemma getRelated_value:
  assumes st: "\<forall>n. retrieveRecord h n = store"
    and ag: "relatedCacheAgrees store ev"
    and dot: "CHR ''.'' \<in> set path"
    and g: "getRelatedFieldValue h path (ev, s) = (v, ev', s')"
  shows "v = referenceValue store (ev_record ev) path \<and> relatedCacheAgrees store ev' \<and>
         ev_record ev' = ev_record ev"
proof -
  let ?lp = "butlast (splitOn CHR ''.'' path)"
  let ?key = "joinWith CHR ''.'' ?lp"
  let ?ff = "last (splitOn CHR ''.'' path)"
  note key = lookupPath_key [OF dot]
  show ?thesis
  proof (cases "relatedRecordsCache ev ?key")
    case (Some rr)
    from ag Some have "chainRecord store (ev_record ev) (splitOn CHR ''.'' ?key) = Some rr"
      unfolding relatedCacheAgrees_def by blast
    with key have "chainRecord store (ev_record ev) ?lp = Some rr" by simp
    with Some g dot ag show ?thesis
      by (auto simp: getRelatedFieldValue_def Let_def referenceValue_def)
  next
    case None
    obtain res s1 where f: "EE_fetchRelatedRecord h ev ?lp s = (res, s1)"
      by (metis prod.exhaust)
    with EE_related_chain [OF st, of ev ?lp s]
    have res: "res = chainRecord store (ev_record ev) ?lp" by simp
    show ?thesis
    proof (cases res)
      case None': None
      with res have ch: "chainRecord store (ev_record ev) ?lp = None" by simp
      from f None' have f': "EE_fetchRelatedRecord h ev ?lp s = (None, s1)" by simp
      from None f' g dot ag ch show ?thesis
        by (auto simp: getRelatedFieldValue_def Let_def referenceValue_def fieldOrNull_def)
    next
      case (Some rr)
      with res have ch: "chainRecord store (ev_record ev) ?lp = Some rr" by simp
      from f Some have f': "EE_fetchRelatedRecord h ev ?lp s = (Some rr, s1)" by simp
      from None f' g have ev': "ev' = ev\<lparr>relatedRecordsCache := (relatedRecordsCache ev)(?key \<mapsto> rr)\<rparr>"
        and v: "v = fieldOrNull (Some rr) ?ff"
        by (auto simp: getRelatedFieldValue_def Let_def)
      have "relatedCacheAgrees store ev'"
        unfolding relatedCacheAgrees_def
      proof (intro allI impI)
        fix k r
        assume k: "relatedRecordsCache ev' k = Some r"
        show "chainRecord store (ev_record ev') (splitOn CHR ''.'' k) = Some r"
        proof (cases "k = ?key")
          case True
          with k ev' have "r = rr" by simp
          with True key ch ev' show ?thesis by simp
        next
          case False
          with k ev' have "relatedRecordsCache ev k = Some r" by simp
          with ag have "chainRecord store (ev_record ev) (splitOn CHR ''.'' k) = Some r"
            unfolding relatedCacheAgrees_def by blast
          with ev' show ?thesis by simp
        qed
      qed
      with v ev' ch dot show ?thesis by (simp add: referenceValue_def)
    qed
  qed
qed

lemma createData_resolved:
  assumes st: "\<forall>n. retrieveRecord h n = store"
    and ag: "relatedCacheAgrees store ev"
    and c: "createDataObjectAsync h refs data (ev, s) = (data', ev', s')"
  shows "data' = foldl (\<lambda>data reference. dataSet data reference
                          (convertValueToProperType (referenceValue store (ev_record ev) reference)))
                   data refs \<and>
         relatedCacheAgrees store ev' \<and> ev_record ev' = ev_record ev"
  using ag c
proof (induction refs arbitrary: data ev s)
  case Nil
  then show ?case by simp
next
  case (Cons r rs)
  show ?case
  proof (cases "CHR ''.'' \<in> set r")
    case True
    obtain v ev1 s1 where g: "getRelatedFieldValue h r (ev, s) = (v, ev1, s1)"
      by (metis prod.exhaust)
    note gv = getRelated_value [OF st Cons.prems(1) True g]
    from True g Cons.prems(2)
    have "createDataObjectAsync h rs (dataSet data r (convertValueToProperType v)) (ev1, s1) = (data', ev', s')"
      by simp
    from Cons.IH [OF _ this] gv show ?thesis by simp
  next
    case False
    with Cons.prems(2)
    have "createDataObjectAsync h rs
            (dataSet data r (convertValueToProperType (getAttr (ev_record ev) r))) (ev, s) = (data', ev', s')"
      by simp
    from Cons.IH [OF Cons.prems(1) this] False show ?thesis by (simp add: referenceValue_def)
  qed
qed

lemma evaluateAsync_resolved:
  assumes st: "\<forall>n. retrieveRecord h n = store"
    and ag: "relatedCacheAgrees store ev"
    and ne: "expression \<noteq> []"
    and e: "evaluateAsync h expression (ev, s) = (b, ev', s')"
  shows "b = evalExpression h expression
               (resolvedData store (ev_record ev) (extractFieldReferences expression)) (ev_record ev) \<and>
         relatedCacheAgrees store ev' \<and> ev_record ev' = ev_record ev"
proof -
  obtain data ev1 s1 where
    c: "createDataObjectAsync h (extractFieldReferences expression) emptyData (ev, s) = (data, ev1, s1)"
    by (metis prod.exhaust)
  from createData_resolved [OF st ag c] c e ne show ?thesis
    by (simp add: evaluateAsync_def Let_def resolvedData_def)
qed

subsection \<open>Visibility against a store that does not change\<close>

lemma expressionVisible_same_record:
  "map_option ev_record evo' = map_option ev_record evo \<Longrightarrow>
     expressionVisible h store evo' c = expressionVisible h store evo c"
  by (cases evo; cases evo') (auto simp: expressionVisible_def split: option.splits)

lemma visibilityOf_expression:
  assumes st: "\<forall>n. retrieveRecord h n = store"
    and ag: "evaluatorAgrees store evo"
    and v: "visibilityOf h (theia_visibilityexpression c) (evo, s) = (b, evo', s')"
  shows "b = expressionVisible h store evo c \<and> evaluatorAgrees store evo' \<and>
         map_option ev_record evo' = map_option ev_record evo"
proof (cases "theia_visibilityexpression c")
  case None
  with v ag show ?thesis by (simp add: visibilityOf_def expressionVisible_def)
next
  case (Some e)
  show ?thesis
  proof (cases "e = []")
    case True
    with Some v ag show ?thesis by (simp add: visibilityOf_def expressionVisible_def)
  next
    case False
    show ?thesis
    proof (cases evo)
      case None
      with Some False v ag show ?thesis by (simp add: visibilityOf_def expressionVisible_def)
    next
      case (Some ev) note ev = this
      obtain b1 ev1 s1 where a: "evaluateAsync h e (ev, s) = (b1, ev1, s1)"
        by (metis prod.exhaust)
      from ag ev have "relatedCacheAgrees store ev" by (simp add: evaluatorAgrees_def)
      from evaluateAsync_resolved [OF st this False a] a v \<open>theia_visibilityexpression c = Some e\<close> False ev
      show ?thesis
        by (auto simp: visibilityOf_def expressionVisible_def evaluatorAgrees_def)
    qed
  qed
qed

lemma resolveOneConfig_visible:
  assumes st: "\<forall>n. retrieveRecord h n = store"
    and ag: "evaluatorAgrees store evo"
    and r: "resolveOneConfig h rcd c (evo, s) = ((rc, vis), evo', s')"
  shows "vis = expressionVisible h store evo c \<and> evaluatorAgrees store evo' \<and>
         map_option ev_record evo' = map_option ev_record evo"
proof -
  from r obtain s4 where "visibilityOf h (theia_visibilityexpression c) (evo, s4) = (vis, evo', s')"
    by (auto simp: resolveOneConfig_def split: prod.splits)
  from visibilityOf_expression [OF st ag this] show ?thesis .
qed

lemma passOutcomes_visible:
  assumes st: "\<forall>n. retrieveRecord h n = store"
    and ag: "evaluatorAgrees store evo"
    and m: "(c, rc, vis) \<in> set (passOutcomes h rcd cs (evo, s))"
  shows "vis = expressionVisible h store evo c"
  using ag m
proof (induction cs arbitrary: evo s)
  case Nil
  then show ?case by simp
next
  case (Cons a cs)
  obtain rc' vis' evo1 s1 where r: "resolveOneConfig h rcd a (evo, s) = ((rc', vis'), evo1, s1)"
    by (metis prod.exhaust)
  note one = resolveOneConfig_visible [OF st Cons.prems(1) r]
  from Cons.prems(2) r
  have "(c, rc, vis) = (a, rc', vis') \<or> (c, rc, vis) \<in> set (passOutcomes h rcd cs (evo1, s1))"
    by simp
  then show ?case
  proof
    assume "(c, rc, vis) = (a, rc', vis')"
    with one show ?thesis by simp
  next
    assume "(c, rc, vis) \<in> set (passOutcomes h rcd cs (evo1, s1))"
    with Cons.IH [of evo1 s1] one have "vis = expressionVisible h store evo1 c" by simp
    with one expressionVisible_same_record [of evo1 evo h store c] show ?thesis by simp
  qed
qed

lemma passOutcomes_no_expression:
  assumes "(c, rc, vis) \<in> set (passOutcomes h rcd cs es)"
    and "theia_visibilityexpression c = None \<or> theia_visibilityexpression c = Some []"
  shows "vis"
  using assms
proof (induction cs arbitrary: es)
  case Nil
  then show ?case by simp
next
  case (Cons a cs)
  obtain rc' vis' es1 where r: "resolveOneConfig h rcd a es = ((rc', vis'), es1)"
    by (metis prod.exhaust)
  from Cons.prems(1) r
  have "(c, rc, vis) = (a, rc', vis') \<or> (c, rc, vis) \<in> set (passOutcomes h rcd cs es1)"
    by simp
  then show ?case
  proof
    assume e: "(c, rc, vis) = (a, rc', vis')"
    with r Cons.prems(2) show ?thesis
      by (cases es) (auto simp: resolveOneConfig_def visibilityOf_def split: prod.splits)
  next
    assume "(c, rc, vis) \<in> set (passOutcomes h rcd cs es1)"
    with Cons.IH Cons.prems(2) show ?thesis by blast
  qed
qed

lemma kept_inputs:
  assumes "\<forall>(c, rc, vis) \<in> set outs. vis = P c"
  shows "map fst (filter (\<lambda>(c, rc, vis). vis) outs) = filter P (map fst outs)"
  using assms by (induction outs) auto

subsection \<open>The data object\<close>

lemma foldl_dataSet_own:
  assumes "k \<noteq> ''__proto__''"
  shows "dataOwn (foldl (\<lambda>data reference. dataSet data reference (f reference)) d refs) k =
           (if k \<in> set refs then Some (f k) else dataOwn d k)"
  using assms by (induction refs arbitrary: d) (auto simp: dataSet_def)

lemma resolvedData_own:
  assumes "k \<noteq> ''__proto__''"
  shows "dataOwn (resolvedData store r refs) k =
           (if k \<in> set refs then Some (convertValueToProperType (referenceValue store r k))
            else None)"
  using assms by (simp add: resolvedData_def foldl_dataSet_own emptyData_def)

lemma relatedCacheAgrees_new: "relatedCacheAgrees store (newExpressionEvaluator r)"
  by (simp add: relatedCacheAgrees_def newExpressionEvaluator_def)

section \<open>The claims\<close>

text \<open>
  Claim C1: resolving a lookup chain returns the record reached after the full chain and
  \<open>null\<close> whenever a hop's id or type annotation is missing, also after the first hop.
  The component's \<open>fetchRelatedRecord\<close> leaves its loop at a missing later hop and returns
  the record reached so far. For the contact whose parent customer is an account without
  a parent account, the chain \<open>parentcustomerid.parentaccountid\<close> gives the account, the
  token \<open>{parentcustomerid.parentaccountid.websiteurl}\<close> is replaced by the web site of the
  account, and one record is fetched; the evaluator's \<open>fetchRelatedRecord\<close> returns \<open>null\<close>
  for the same chain.
\<close>

theorem C1_missing_second_hop:
  "fst (fetchRelatedRecord (hostWith accountStore) (Some contactRecord)
          [''parentcustomerid'', ''parentaccountid''] emptyState) = Some accountRecord \<and>
   getAttr accountRecord ''_parentaccountid_value'' = JUndefined \<and>
   fst (asyncReplaceDynamicValues (hostWith accountStore) (Some contactRecord)
          (Some ''{parentcustomerid.parentaccountid.websiteurl}'') emptyState) =
     ''https://contoso.com'' \<and>
   fetchLog (snd (asyncReplaceDynamicValues (hostWith accountStore) (Some contactRecord)
          (Some ''{parentcustomerid.parentaccountid.websiteurl}'') emptyState)) =
     [(JStr ''account'', JStr ''a1'')] \<and>
   fst (EE_fetchRelatedRecord (hostWith accountStore) (newExpressionEvaluator contactRecord)
          [''parentcustomerid'', ''parentaccountid''] emptyState) = None"
  by (simp add: string_defs token_defs cache_defs resolver_defs evaluator_defs example_defs)

text \<open>So the resolved text is not the token it was given.\<close>

theorem C1_missing_second_hop_witness:
  "fst (asyncReplaceDynamicValues (hostWith accountStore) (Some contactRecord)
          (Some ''{parentcustomerid.parentaccountid.websiteurl}'') emptyState) \<noteq>
     ''{parentcustomerid.parentaccountid.websiteurl}''"
  using C1_missing_second_hop by simp

text \<open>
  Claim C2: a token whose path has no value is left in the text as it was written. The
  fallback puts the matched text back with \<open>String.prototype.replace\<close>, which reads
  \<open>$'\<close> in the replacement as the text after the match. In the action script below the
  block in braces is one token whose path is not an attribute of the record, and the
  dollar sign and the quote after it are lost.
\<close>

theorem C2_dollar_in_unresolved_token:
  "map fieldPath (extractTokens ''if (ok) { alert('Price in $'); }'') = ['' alert('Price in $'); ''] \<and>
   getAttr [] '' alert('Price in $'); '' = JUndefined \<and>
   fst (asyncReplaceDynamicValues (hostWith accountStore) (Some [])
          (Some ''if (ok) { alert('Price in $'); }'') emptyState) =
     ''if (ok) { alert('Price in ); }''"
  by (simp add: string_defs token_defs cache_defs resolver_defs example_defs)

text \<open>So the resolved text is not the text it was given.\<close>

theorem C2_dollar_in_unresolved_token_witness:
  "fst (asyncReplaceDynamicValues (hostWith accountStore) (Some [])
          (Some ''if (ok) { alert('Price in $'); }'') emptyState) \<noteq>
     ''if (ok) { alert('Price in $'); }''"
  using C2_dollar_in_unresolved_token by simp

text \<open>
  Claim C3: after one resolution pass the list of resolved configurations is sorted by
  position, ascending. It holds, in the order of the stable sort of the input, the
  resolved copy of every configuration that the pass found visible, and of no other,
  each with \<open>isVisible\<close> attached; a resolved copy keeps the position, the table name,
  the icon, the visibility expression and the link flag of its configuration. The sort
  keeps all configurations, and those with the same position stay in the order of the
  input. A configuration without an expression, or with the empty one, is found visible.
  When the store answers every retrieval in the same way, and the records the evaluator
  has kept are those of the store, the pass finds visible exactly the configurations
  whose visibility expression evaluates visible over the data map of its references: the
  output is the list of the visible copies of those configurations of the sorted input,
  in its order.
\<close>

theorem C3_resolved_configs:
  assumes "map_option fst (resolveConfigs h rcd configs (evo, s)) = Some newConfigs"
  shows "sorted (map theia_buttonposition newConfigs) \<and>
         newConfigs =
           map (\<lambda>(c, rc, vis). rc\<lparr>isVisible := Some vis\<rparr>)
             (filter (\<lambda>(c, rc, vis). vis) (passOutcomes h rcd (sortedConfigs configs) (evo, s))) \<and>
         map fst (passOutcomes h rcd (sortedConfigs configs) (evo, s)) = sortedConfigs configs \<and>
         list_all (\<lambda>(c, rc, vis). theia_buttonposition rc = theia_buttonposition c \<and>
                      theia_tablename rc = theia_tablename c \<and>
                      theia_buttonicon rc = theia_buttonicon c \<and>
                      theia_visibilityexpression rc = theia_visibilityexpression c \<and>
                      theia_showaslink rc = theia_showaslink c)
                  (passOutcomes h rcd (sortedConfigs configs) (evo, s)) \<and>
         list_all (\<lambda>rc. isVisible rc = Some True) newConfigs \<and>
         sorted (map theia_buttonposition (sortedConfigs configs)) \<and>
         mset (sortedConfigs configs) = mset configs \<and>
         filter (\<lambda>c. theia_buttonposition c = k) (sortedConfigs configs) =
           filter (\<lambda>c. theia_buttonposition c = k) configs \<and>
         list_all (\<lambda>(c, rc, vis).
                     theia_visibilityexpression c = None \<or> theia_visibilityexpression c = Some []
                       \<longrightarrow> vis)
                  (passOutcomes h rcd (sortedConfigs configs) (evo, s)) \<and>
         ((\<forall>n. retrieveRecord h n = store) \<and> evaluatorAgrees store evo \<longrightarrow>
            list_all (\<lambda>(c, rc, vis). vis = expressionVisible h store evo c)
              (passOutcomes h rcd (sortedConfigs configs) (evo, s)) \<and>
            list_all2 visibleCopyOf
              (filter (expressionVisible h store evo) (sortedConfigs configs)) newConfigs)"
proof -
  let ?outs = "passOutcomes h rcd (sortedConfigs configs) (evo, s)"
  from assms have nc: "newConfigs = fst (resolveSortedConfigs h rcd (sortedConfigs configs) (evo, s))"
    by (auto simp: resolveConfigs_def split: option.splits)
  have srt: "sorted (map theia_buttonposition (sortedConfigs configs))"
    by (simp add: sortedConfigs_def)
  have 1: "sorted (map theia_buttonposition newConfigs)"
    unfolding nc using srt by (rule resolved_sorted)
  have 2: "newConfigs = map (\<lambda>(c, rc, vis). rc\<lparr>isVisible := Some vis\<rparr>)
                          (filter (\<lambda>(c, rc, vis). vis) ?outs)"
    unfolding nc by (rule resolveSortedConfigs_outcomes)
  have 4: "list_all (\<lambda>(c, rc, vis). theia_buttonposition rc = theia_buttonposition c \<and>
                      theia_tablename rc = theia_tablename c \<and>
                      theia_buttonicon rc = theia_buttonicon c \<and>
                      theia_visibilityexpression rc = theia_visibilityexpression c \<and>
                      theia_showaslink rc = theia_showaslink c) ?outs"
    unfolding list_all_iff
    using passOutcomes_fields [of _ _ _ h rcd "sortedConfigs configs" "(evo, s)"] by auto
  have 5: "list_all (\<lambda>rc. isVisible rc = Some True) newConfigs"
    unfolding 2 list_all_iff by auto
  have 6: "mset (sortedConfigs configs) = mset configs"
    by (simp add: sortedConfigs_def)
  have 7: "filter (\<lambda>c. theia_buttonposition c = k) (sortedConfigs configs) =
           filter (\<lambda>c. theia_buttonposition c = k) configs"
    by (simp add: sortedConfigs_def sort_key_stable)
  have 8: "list_all (\<lambda>(c, rc, vis).
                     theia_visibilityexpression c = None \<or> theia_visibilityexpression c = Some []
                       \<longrightarrow> vis) ?outs"
    unfolding list_all_iff
    using passOutcomes_no_expression [of _ _ _ h rcd "sortedConfigs configs" "(evo, s)"] by auto
  have 9: "(\<forall>n. retrieveRecord h n = store) \<and> evaluatorAgrees store evo \<longrightarrow>
            list_all (\<lambda>(c, rc, vis). vis = expressionVisible h store evo c) ?outs \<and>
            list_all2 visibleCopyOf
              (filter (expressionVisible h store evo) (sortedConfigs configs)) newConfigs"
  proof (intro impI, elim conjE)
    assume st: "\<forall>n. retrieveRecord h n = store" and ag: "evaluatorAgrees store evo"
    have v: "\<forall>(c, rc, vis) \<in> set ?outs. vis = expressionVisible h store evo c"
      using passOutcomes_visible [OF st ag] by auto
    from kept_inputs [OF v]
    have k: "filter (expressionVisible h store evo) (sortedConfigs configs) =
               map fst (filter (\<lambda>(c, rc, vis). vis) ?outs)"
      by (simp add: passOutcomes_inputs)
    have "\<forall>x \<in> set (filter (\<lambda>(c, rc, vis). vis) ?outs).
            visibleCopyOf (fst x) ((\<lambda>(c, rc, vis). rc\<lparr>isVisible := Some vis\<rparr>) x)"
      using passOutcomes_fields [of _ _ _ h rcd "sortedConfigs configs" "(evo, s)"]
      by (auto simp: visibleCopyOf_def)
    then have "list_all2 visibleCopyOf
                 (filter (expressionVisible h store evo) (sortedConfigs configs)) newConfigs"
      unfolding k 2 by (simp add: list_all2_map1 list_all2_map2 list_all2_same)
    with v show "list_all (\<lambda>(c, rc, vis). vis = expressionVisible h store evo c) ?outs \<and>
            list_all2 visibleCopyOf
              (filter (expressionVisible h store evo) (sortedConfigs configs)) newConfigs"
      by (simp add: list_all_iff)
  qed
  from 1 2 4 5 srt 6 7 8 9 show ?thesis by (simp add: passOutcomes_inputs)
qed

theorem C3_resolved_configs_witness:
  "map_option fst
     (resolveConfigs (evaluatingHost accountStore) (Some contactRecord) exampleConfigs
        (Some (newExpressionEvaluator contactRecord), emptyState)) =
   Some
     [(exampleConfig 1 ''First'' (Some ''{revenue} > 10000''))
        \<lparr>theia_buttontooltip := Some [], theia_actionscript := Some [], isVisible := Some True\<rparr>,
      (exampleConfig 1 ''Third'' (Some []))
        \<lparr>theia_buttontooltip := Some [], theia_actionscript := Some [], isVisible := Some True\<rparr>,
      (exampleConfig 2 ''Revenue 15000'' None)
        \<lparr>theia_buttontooltip := Some [], theia_actionscript := Some [], isVisible := Some True\<rparr>,
      (exampleConfig 3 ''Account'' (Some ''{parentcustomerid.name} != null''))
        \<lparr>theia_buttontooltip := Some [], theia_actionscript := Some [], isVisible := Some True\<rparr>] \<and>
   filter (expressionVisible (evaluatingHost accountStore) (accountStore 0)
             (Some (newExpressionEvaluator contactRecord)))
     (sortedConfigs exampleConfigs) =
     [exampleConfig 1 ''First'' (Some ''{revenue} > 10000''),
      exampleConfig 1 ''Third'' (Some []),
      exampleConfig 2 ''Revenue {revenue}'' None,
      exampleConfig 3 ''Account'' (Some ''{parentcustomerid.name} != null'')] \<and>
   list_all2 visibleCopyOf
     (filter (expressionVisible (evaluatingHost accountStore) (accountStore 0)
                (Some (newExpressionEvaluator contactRecord)))
        (sortedConfigs exampleConfigs))
     [(exampleConfig 1 ''First'' (Some ''{revenue} > 10000''))
        \<lparr>theia_buttontooltip := Some [], theia_actionscript := Some [], isVisible := Some True\<rparr>,
      (exampleConfig 1 ''Third'' (Some []))
        \<lparr>theia_buttontooltip := Some [], theia_actionscript := Some [], isVisible := Some True\<rparr>,
      (exampleConfig 2 ''Revenue 15000'' None)
        \<lparr>theia_buttontooltip := Some [], theia_actionscript := Some [], isVisible := Some True\<rparr>,
      (exampleConfig 3 ''Account'' (Some ''{parentcustomerid.name} != null''))
        \<lparr>theia_buttontooltip := Some [], theia_actionscript := Some [], isVisible := Some True\<rparr>] \<and>
   sorted (map theia_buttonposition
     [(exampleConfig 1 ''First'' (Some ''{revenue} > 10000''))
        \<lparr>theia_buttontooltip := Some [], theia_actionscript := Some [], isVisible := Some True\<rparr>,
      (exampleConfig 1 ''Third'' (Some []))
        \<lparr>theia_buttontooltip := Some [], theia_actionscript := Some [], isVisible := Some True\<rparr>,
      (exampleConfig 2 ''Revenue 15000'' None)
        \<lparr>theia_buttontooltip := Some [], theia_actionscript := Some [], isVisible := Some True\<rparr>,
      (exampleConfig 3 ''Account'' (Some ''{parentcustomerid.name} != null''))
        \<lparr>theia_buttontooltip := Some [], theia_actionscript := Some [], isVisible := Some True\<rparr>])"
  (is "?run = Some ?out \<and> ?kept = ?ins \<and> _ \<and> _")
proof -
  have h: "?run = Some ?out"
    by (simp add: string_defs token_defs cache_defs resolver_defs evaluator_defs example_defs
          exampleConfigs_def evaluatingHost_def exampleEval_def)
  have st: "\<forall>n. retrieveRecord (evaluatingHost accountStore) n = accountStore 0"
    by (simp add: evaluatingHost_def hostWith_def accountStore_def fun_eq_iff)
  have ag: "evaluatorAgrees (accountStore 0) (Some (newExpressionEvaluator contactRecord))"
    by (simp add: evaluatorAgrees_def relatedCacheAgrees_new)
  note t = C3_resolved_configs [OF h, where k = 1 and store = "accountStore 0"]
  from t have a: "sorted (map theia_buttonposition ?out)"
    by (rule conjunct1)
  from t st ag have b: "list_all2 visibleCopyOf ?kept ?out"
    by blast
  have c: "?kept = ?ins"
    by (simp add: expressionVisible_def resolvedData_def referenceValue_def chainRecord_def
          idAttr_def typeAttr_def string_defs resolver_defs evaluator_defs example_defs
          exampleConfigs_def evaluatingHost_def exampleEval_def)
  from h c b a show ?thesis by (intro conjI)
qed

text \<open>
  Claim C4 as the specification states it fails: the two tokens below have the same path,
  the fetch of the related record fails, and it is made twice.
\<close>

theorem C4_repeated_path_fetched_twice:
  "remdups (map fieldPath (extractTokens ''{parentcustomerid.name} {parentcustomerid.name}'')) =
     [''parentcustomerid.name''] \<and>
   fetchLog (snd (asyncReplaceDynamicValues (hostWith failingStore) (Some contactRecord)
          (Some ''{parentcustomerid.name} {parentcustomerid.name}'') emptyState)) =
     [(JStr ''account'', JStr ''a1''), (JStr ''account'', JStr ''a1'')]"
  by (simp add: string_defs token_defs cache_defs resolver_defs example_defs)

text \<open>
  Claim C4, amended: the resolver resolves every token occurrence in turn, without
  looking whether its path was resolved before, and keeps the last value of a path. When
  the lookup chain of a dotted path reached a record, resolving the same path again
  changes nothing: every hop is served by the record cache, nothing is fetched, and two
  occurrences cost what one costs.
\<close>

theorem C4_repeated_path_served_by_cache:
  assumes "CHR ''.'' \<in> set (fieldPath ref)"
    and "toLowerCase (last (splitOn CHR ''.'' (fieldPath ref))) \<noteq> ''id''"
    and "fst (fetchRelatedRecord h (Some r) (butlast (splitOn CHR ''.'' (fieldPath ref))) s) = Some related"
  shows "resolveFieldValue h r ref (snd (resolveFieldValue h r ref s)) = resolveFieldValue h r ref s \<and>
         resolveAllFields h r [ref, ref] m s =
           (m(fieldPath ref \<mapsto> fst (resolveFieldValue h r ref s)), snd (resolveFieldValue h r ref s)) \<and>
         resolveAllFields h r [ref] m s =
           (m(fieldPath ref \<mapsto> fst (resolveFieldValue h r ref s)), snd (resolveFieldValue h r ref s))"
proof -
  let ?path = "butlast (splitOn CHR ''.'' (fieldPath ref))"
  obtain s1 where f: "fetchRelatedRecord h (Some r) ?path s = (Some related, s1)"
    using assms(3) by (cases "fetchRelatedRecord h (Some r) ?path s") auto
  note again = fetchRelatedRecord_again [OF f]
  from assms(1,2) f have 1: "resolveFieldValue h r ref s = (getAttr related (last (splitOn CHR ''.'' (fieldPath ref))), s1)"
    by (simp add: resolveFieldValue_def Let_def)
  from assms(1,2) again have 2: "resolveFieldValue h r ref s1 = (getAttr related (last (splitOn CHR ''.'' (fieldPath ref))), s1)"
    by (simp add: resolveFieldValue_def Let_def)
  from 1 2 show ?thesis by simp
qed

theorem C4_repeated_path_witness:
  "CHR ''.'' \<in> set ''parentcustomerid.name'' \<and>
   toLowerCase (last (splitOn CHR ''.'' ''parentcustomerid.name'')) \<noteq> ''id'' \<and>
   fst (fetchRelatedRecord (hostWith accountStore) (Some contactRecord)
          (butlast (splitOn CHR ''.'' ''parentcustomerid.name'')) emptyState) = Some accountRecord \<and>
   fetchLog (snd (resolveAllFields (hostWith accountStore) contactRecord
       [\<lparr>fullMatch = ''{parentcustomerid.name}'', fieldPath = ''parentcustomerid.name'', methodCall = None\<rparr>,
        \<lparr>fullMatch = ''{parentcustomerid.name}'', fieldPath = ''parentcustomerid.name'', methodCall = None\<rparr>]
       Map.empty emptyState)) = [(JStr ''account'', JStr ''a1'')] \<and>
   fetchLog (snd (resolveAllFields (hostWith accountStore) contactRecord
       [\<lparr>fullMatch = ''{parentcustomerid.name}'', fieldPath = ''parentcustomerid.name'', methodCall = None\<rparr>]
       Map.empty emptyState)) = [(JStr ''account'', JStr ''a1'')]"
proof -
  let ?ref = "\<lparr>fullMatch = ''{parentcustomerid.name}'', fieldPath = ''parentcustomerid.name'', methodCall = None\<rparr>"
  have a: "CHR ''.'' \<in> set (fieldPath ?ref)" by simp
  have b: "toLowerCase (last (splitOn CHR ''.'' (fieldPath ?ref))) \<noteq> ''id''"
    by (simp add: string_defs)
  have c: "fst (fetchRelatedRecord (hostWith accountStore) (Some contactRecord)
          (butlast (splitOn CHR ''.'' (fieldPath ?ref))) emptyState) = Some accountRecord"
    by (simp add: string_defs cache_defs resolver_defs example_defs)
  have d: "fetchLog (snd (resolveFieldValue (hostWith accountStore) contactRecord ?ref emptyState)) =
             [(JStr ''account'', JStr ''a1'')]"
    by (simp add: string_defs cache_defs resolver_defs example_defs)
  from C4_repeated_path_served_by_cache [OF a b c, of Map.empty] a b c d show ?thesis
    by simp
qed

text \<open>
  Claim C5 as the specification states it fails for a chain of two lookups: the id that
  the account stores for its primary contact is \<open>c9\<close>, and the token resolves to \<open>a1\<close>, the
  id of the account itself.
\<close>

theorem C5_second_lookup_ignored:
  "fst (resolveFieldValue (hostWith accountStore) contactRecord
          \<lparr>fullMatch = ''{parentcustomerid.primarycontactid.id}'',
           fieldPath = ''parentcustomerid.primarycontactid.id'', methodCall = None\<rparr> emptyState) =
     JStr ''a1'' \<and>
   claimedIdValue (accountStore 0) contactRecord [''parentcustomerid'', ''primarycontactid''] =
     JStr ''c9''"
  by (simp add: string_defs cache_defs resolver_defs example_defs)

text \<open>
  Claim C5, amended: for every token whose last path segment is \<open>id\<close> in any mix of upper
  and lower case, after at least one other segment, nothing is fetched and the state
  stays as it is. When one lookup segment comes before \<open>id\<close>, the resolved value is the
  foreign-key id that the base record stores for that lookup, the attribute
  \<open>_<lookup>_value\<close>, which is the value the specification describes; when that attribute
  is \<open>null\<close> or missing, the resolved value is the matched text of the token.
\<close>

theorem C5_id_segment:
  assumes "CHR ''.'' \<in> set (fieldPath ref)"
    and "toLowerCase (last (splitOn CHR ''.'' (fieldPath ref))) = ''id''"
  shows "snd (resolveFieldValue h r ref s) = s \<and>
         (splitOn CHR ''.'' (fieldPath ref) = [lookup, final] \<longrightarrow>
            fst (resolveFieldValue h r ref s) =
              nullish (getAttr r (''_'' @ lookup @ ''_value'')) (JStr (fullMatch ref)) \<and>
            (getAttr r (''_'' @ lookup @ ''_value'') \<noteq> JNull \<and>
             getAttr r (''_'' @ lookup @ ''_value'') \<noteq> JUndefined \<longrightarrow>
               fst (resolveFieldValue h r ref s) = claimedIdValue store r [lookup]))"
proof -
  have "nullish v d = v" if "v \<noteq> JNull" "v \<noteq> JUndefined" for v d
    using that by (cases v) simp_all
  with assms show ?thesis
    by (auto simp: resolveFieldValue_def Let_def firstSegment_def)
qed

theorem C5_id_segment_witness:
  "CHR ''.'' \<in> set ''parentcustomerid.Id'' \<and>
   toLowerCase (last (splitOn CHR ''.'' ''parentcustomerid.Id'')) = ''id'' \<and>
   splitOn CHR ''.'' ''parentcustomerid.Id'' = [''parentcustomerid'', ''Id''] \<and>
   snd (resolveFieldValue (hostWith failingStore) contactRecord
     \<lparr>fullMatch = ''{parentcustomerid.Id}'', fieldPath = ''parentcustomerid.Id'', methodCall = None\<rparr>
     emptyState) = emptyState \<and>
   fst (resolveFieldValue (hostWith failingStore) contactRecord
     \<lparr>fullMatch = ''{parentcustomerid.Id}'', fieldPath = ''parentcustomerid.Id'', methodCall = None\<rparr>
     emptyState) = JStr ''a1'' \<and>
   claimedIdValue (failingStore 0) contactRecord [''parentcustomerid''] = JStr ''a1''"
  using C5_id_segment [of "\<lparr>fullMatch = ''{parentcustomerid.Id}'', fieldPath = ''parentcustomerid.Id'', methodCall = None\<rparr>"
      "hostWith failingStore" contactRecord emptyState "''parentcustomerid''" "''Id''" "failingStore 0"]
  by (simp add: string_defs getAttr_def objectPrototypeNames_def contactRecord_def)

text \<open>Claim C6 as the specification states it fails for \<open>undefined\<close>, which becomes \<open>null\<close>.\<close>

theorem C6_undefined_becomes_null: "convertValueToProperType JUndefined \<noteq> JUndefined"
  by simp

text \<open>
  Claim C6, amended: value coercion maps \<open>null\<close> to itself and \<open>undefined\<close> to \<open>null\<close>; a
  string of the form \<open>YYYY-MM-DDThh:mm:ss\<close>, with nothing, \<open>Z\<close> or an offset \<open>+hh:mm\<close> or
  \<open>-hh:mm\<close> after it, becomes a date; a date stays as it is, and so does every value of
  another type: a boolean, a number, an inherited member. The strings are settled
  completely: a string becomes a date exactly when it has that form with \<open>T\<close> or one
  white-space character between the day and the hour and nothing after the seconds or
  the zone, and every other string stays as it is.
\<close>

theorem C6_coercion:
  "convertValueToProperType JNull = JNull \<and>
   convertValueToProperType JUndefined = JNull \<and>
   (list_all isDigit [y1, y2, y3, y4, m1, m2, d1, d2, h1, h2, n1, n2, s1, s2] \<and>
    (tz = [] \<or> tz = ''Z'' \<or>
     (tz = [sg, o1, o2, CHR '':'', o3, o4] \<and> (sg = CHR ''+'' \<or> sg = CHR ''-'') \<and>
      list_all isDigit [o1, o2, o3, o4])) \<longrightarrow>
    convertValueToProperType
      (JStr ([y1, y2, y3, y4, CHR ''-'', m1, m2, CHR ''-'', d1, d2, CHR ''T'',
              h1, h2, CHR '':'', n1, n2, CHR '':'', s1, s2] @ tz)) =
    JDate ([y1, y2, y3, y4, CHR ''-'', m1, m2, CHR ''-'', d1, d2, CHR ''T'',
            h1, h2, CHR '':'', n1, n2, CHR '':'', s1, s2] @ tz)) \<and>
   (convertValueToProperType (JStr str) = JDate str \<longleftrightarrow>
      (\<exists>a1 a2 a3 a4 b1 b2 c1 c2 sep e1 e2 f1 f2 g1 g2 zone.
         str = [a1, a2, a3, a4, CHR ''-'', b1, b2, CHR ''-'', c1, c2, sep,
                e1, e2, CHR '':'', f1, f2, CHR '':'', g1, g2] @ zone \<and>
         list_all isDigit [a1, a2, a3, a4, b1, b2, c1, c2, e1, e2, f1, f2, g1, g2] \<and>
         (sep = CHR ''T'' \<or> isSpace sep) \<and>
         (zone = [] \<or> zone = ''Z'' \<or>
          (\<exists>sign p1 p2 p3 p4. zone = [sign, p1, p2, CHR '':'', p3, p4] \<and>
             (sign = CHR ''+'' \<or> sign = CHR ''-'') \<and> list_all isDigit [p1, p2, p3, p4])))) \<and>
   (convertValueToProperType (JStr str) = JDate str \<or>
    convertValueToProperType (JStr str) = JStr str) \<and>
   convertValueToProperType (JDate d) = JDate d \<and>
   convertValueToProperType (JBool b) = JBool b \<and>
   convertValueToProperType (JNum n) = JNum n \<and>
   convertValueToProperType (JInherited name) = JInherited name"
  (is "?a \<and> ?b \<and> ?t \<and> ?i \<and> ?r")
proof -
  have a: ?a and b: ?b and r: ?r by simp_all
  have t: ?t
    by (auto simp: isDateString_def dateTimeClasses_def offsetClasses_def)
  have d: "(convertValueToProperType (JStr str) = JDate str) = isDateString str"
    by simp
  have i: ?i
    unfolding d by (rule isDateString_shape)
  show ?thesis
    by (rule conjI [OF a conjI [OF b conjI [OF t conjI [OF i r]]]])
qed

theorem C6_coercion_witness:
  "convertValueToProperType (JStr ''2025-06-02T00:00:00Z'') = JDate ''2025-06-02T00:00:00Z'' \<and>
   convertValueToProperType JUndefined = JNull \<and>
   convertValueToProperType (JStr ''2025-06-02 00:00:00'') = JDate ''2025-06-02 00:00:00'' \<and>
   convertValueToProperType (JStr ''2025-06-02T00:00:00Zulu'') = JStr ''2025-06-02T00:00:00Zulu'' \<and>
   convertValueToProperType (JStr ''Contoso'') = JStr ''Contoso''"
proof -
  have "convertValueToProperType (JStr ''2025-06-02T00:00:00Z'') = JDate ''2025-06-02T00:00:00Z''"
    using C6_coercion [where ?y1.0 = "CHR ''2''" and ?y2.0 = "CHR ''0''" and ?y3.0 = "CHR ''2''"
        and ?y4.0 = "CHR ''5''" and ?m1.0 = "CHR ''0''" and ?m2.0 = "CHR ''6''"
        and ?d1.0 = "CHR ''0''" and ?d2.0 = "CHR ''2''" and ?h1.0 = "CHR ''0''"
        and ?h2.0 = "CHR ''0''" and ?n1.0 = "CHR ''0''" and ?n2.0 = "CHR ''0''"
        and ?s1.0 = "CHR ''0''" and ?s2.0 = "CHR ''0''" and tz = "''Z''",
        THEN conjunct2, THEN conjunct2, THEN conjunct1]
    by (simp add: isDigit_def)
  then show ?thesis
    by (simp add: isDateString_def dateTimeClasses_def offsetClasses_def isDigit_def isSpace_def)
qed




text \<open>
  Claim C8: for an expression with at least one dotted reference, \<open>evaluate\<close> returns
  \<open>false\<close> and writes a warning, and does nothing else: nothing is fetched, the cache is
  not touched. \<open>evaluateAsync\<close> first builds the data object from the references of the
  expression and then evaluates the expression over it and the evaluator's record. When
  the store answers every retrieval in the same way, and the records the evaluator has
  kept are those of the store, the object it builds is the data map of the references:
  a dotted reference has the coerced value of its last segment on the record its lookups
  lead to (\<open>null\<close> when they lead nowhere), a reference without a dot the coerced value
  of the attribute of the evaluator's record, and the result is that of the expression
  over this map.
\<close>

theorem C8_dotted_reference:
  assumes "list_ex (\<lambda>ref. CHR ''.'' \<in> set ref) (extractFieldReferences expression)"
  shows "evaluate h ev expression s =
           (False,
            logMessage
              (ConsoleWarn ''Expression contains related fields and cannot be evaluated synchronously:'')
              s) \<and>
         fetchLog (snd (evaluate h ev expression s)) = fetchLog s \<and>
         cacheUntouched s (snd (evaluate h ev expression s)) \<and>
         evaluateAsync h expression (ev, s) =
           (case createDataObjectAsync h (extractFieldReferences expression) emptyData (ev, s) of
              (data, ev1, s1) \<Rightarrow> (evalExpression h expression data (ev_record ev), ev1, s1)) \<and>
         ((\<forall>n. retrieveRecord h n = store) \<and> relatedCacheAgrees store ev \<longrightarrow>
            fst (createDataObjectAsync h (extractFieldReferences expression) emptyData (ev, s)) =
              resolvedData store (ev_record ev) (extractFieldReferences expression) \<and>
            fst (evaluateAsync h expression (ev, s)) =
              evalExpression h expression
                (resolvedData store (ev_record ev) (extractFieldReferences expression))
                (ev_record ev) \<and>
            (\<forall>reference \<in> set (extractFieldReferences expression).
               CHR ''.'' \<in> set reference \<longrightarrow>
                 dataOwn (resolvedData store (ev_record ev) (extractFieldReferences expression))
                   reference =
                 Some (convertValueToProperType
                         (fieldOrNull
                            (chainRecord store (ev_record ev) (butlast (splitOn CHR ''.'' reference)))
                            (last (splitOn CHR ''.'' reference))))) \<and>
            (\<forall>reference \<in> set (extractFieldReferences expression).
               CHR ''.'' \<notin> set reference \<and> reference \<noteq> ''__proto__'' \<longrightarrow>
                 dataOwn (resolvedData store (ev_record ev) (extractFieldReferences expression))
                   reference =
                 Some (convertValueToProperType (getAttr (ev_record ev) reference))))"
proof -
  let ?refs = "extractFieldReferences expression"
  from assms have ne: "expression \<noteq> []" by auto
  have 1: "evaluate h ev expression s =
           (False,
            logMessage
              (ConsoleWarn ''Expression contains related fields and cannot be evaluated synchronously:'')
              s)"
    using assms ne by (simp add: evaluate_def Let_def)
  obtain data ev1 s1 where
    c: "createDataObjectAsync h ?refs emptyData (ev, s) = (data, ev1, s1)"
    by (metis prod.exhaust)
  from createData_untouched [OF c] have r: "ev_record ev1 = ev_record ev" by simp
  have 2: "evaluateAsync h expression (ev, s) =
           (case createDataObjectAsync h ?refs emptyData (ev, s) of
              (data, ev1, s1) \<Rightarrow> (evalExpression h expression data (ev_record ev), ev1, s1))"
    using ne c r by (simp add: evaluateAsync_def Let_def)
  have 3: "\<forall>reference \<in> set ?refs.
               CHR ''.'' \<in> set reference \<longrightarrow>
                 dataOwn (resolvedData store (ev_record ev) ?refs) reference =
                 Some (convertValueToProperType
                         (fieldOrNull
                            (chainRecord store (ev_record ev) (butlast (splitOn CHR ''.'' reference)))
                            (last (splitOn CHR ''.'' reference))))"
  proof (intro ballI impI)
    fix reference
    assume m: "reference \<in> set ?refs" and dot: "CHR ''.'' \<in> set reference"
    from dot have "reference \<noteq> ''__proto__''" by auto
    from resolvedData_own [OF this, of store "ev_record ev" ?refs] m dot
    show "dataOwn (resolvedData store (ev_record ev) ?refs) reference =
            Some (convertValueToProperType
                    (fieldOrNull
                       (chainRecord store (ev_record ev) (butlast (splitOn CHR ''.'' reference)))
                       (last (splitOn CHR ''.'' reference))))"
      by (simp add: referenceValue_def)
  qed
  have 4: "\<forall>reference \<in> set ?refs.
               CHR ''.'' \<notin> set reference \<and> reference \<noteq> ''__proto__'' \<longrightarrow>
                 dataOwn (resolvedData store (ev_record ev) ?refs) reference =
                 Some (convertValueToProperType (getAttr (ev_record ev) reference))"
  proof (intro ballI impI, elim conjE)
    fix reference
    assume m: "reference \<in> set ?refs" and dot: "CHR ''.'' \<notin> set reference"
      and p: "reference \<noteq> ''__proto__''"
    from resolvedData_own [OF p, of store "ev_record ev" ?refs] m dot
    show "dataOwn (resolvedData store (ev_record ev) ?refs) reference =
            Some (convertValueToProperType (getAttr (ev_record ev) reference))"
      by (simp add: referenceValue_def)
  qed
  have 5: "(\<forall>n. retrieveRecord h n = store) \<and> relatedCacheAgrees store ev \<longrightarrow>
            fst (createDataObjectAsync h ?refs emptyData (ev, s)) =
              resolvedData store (ev_record ev) ?refs \<and>
            fst (evaluateAsync h expression (ev, s)) =
              evalExpression h expression (resolvedData store (ev_record ev) ?refs) (ev_record ev)"
  proof (intro impI, elim conjE)
    assume st: "\<forall>n. retrieveRecord h n = store" and ag: "relatedCacheAgrees store ev"
    from createData_resolved [OF st ag c] c
    have d: "fst (createDataObjectAsync h ?refs emptyData (ev, s)) =
               resolvedData store (ev_record ev) ?refs"
      by (simp add: resolvedData_def)
    obtain b ev' s' where e: "evaluateAsync h expression (ev, s) = (b, ev', s')"
      by (metis prod.exhaust)
    from evaluateAsync_resolved [OF st ag ne e] e
    have "fst (evaluateAsync h expression (ev, s)) =
            evalExpression h expression (resolvedData store (ev_record ev) ?refs) (ev_record ev)"
      by simp
    with d show "fst (createDataObjectAsync h ?refs emptyData (ev, s)) =
              resolvedData store (ev_record ev) ?refs \<and>
            fst (evaluateAsync h expression (ev, s)) =
              evalExpression h expression (resolvedData store (ev_record ev) ?refs) (ev_record ev)"
      by (rule conjI)
  qed
  have 0: "fetchLog (snd (evaluate h ev expression s)) = fetchLog s \<and>
           cacheUntouched s (snd (evaluate h ev expression s))"
    unfolding 1 by (simp add: cacheUntouched_def)
  from 0 1 2 3 4 5 show ?thesis by blast
qed

theorem C8_dotted_reference_witness:
  "list_ex (\<lambda>ref. CHR ''.'' \<in> set ref) (extractFieldReferences ''{parentcustomerid.name} != null'') \<and>
   evaluate (evaluatingHost accountStore) (newExpressionEvaluator contactRecord)
     ''{parentcustomerid.name} != null'' emptyState =
     (False,
      logMessage
        (ConsoleWarn ''Expression contains related fields and cannot be evaluated synchronously:'')
        emptyState) \<and>
   fst (createDataObjectAsync (evaluatingHost accountStore) [''parentcustomerid.name''] emptyData
          (newExpressionEvaluator contactRecord, emptyState)) =
     \<lparr>dataOwn = [''parentcustomerid.name'' \<mapsto> JStr ''Contoso''], dataProto = None\<rparr> \<and>
   fst (evaluateAsync (evaluatingHost accountStore) ''{parentcustomerid.name} != null''
          (newExpressionEvaluator contactRecord, emptyState))"
proof -
  let ?e = "''{parentcustomerid.name} != null''"
  have refs: "extractFieldReferences ?e = [''parentcustomerid.name'']"
    by simp
  have ex: "list_ex (\<lambda>ref. CHR ''.'' \<in> set ref) (extractFieldReferences ?e)"
    unfolding refs by simp
  have st: "\<forall>n. retrieveRecord (evaluatingHost accountStore) n = accountStore 0"
    by (simp add: evaluatingHost_def hostWith_def accountStore_def fun_eq_iff)
  have ag: "relatedCacheAgrees (accountStore 0) (newExpressionEvaluator contactRecord)"
    by (rule relatedCacheAgrees_new)
  have rd: "resolvedData (accountStore 0) contactRecord [''parentcustomerid.name''] =
              \<lparr>dataOwn = [''parentcustomerid.name'' \<mapsto> JStr ''Contoso''], dataProto = None\<rparr>"
    by (simp add: resolvedData_def referenceValue_def chainRecord_def idAttr_def typeAttr_def
          string_defs resolver_defs evaluator_defs example_defs)
  note t = C8_dotted_reference [OF ex, where h = "evaluatingHost accountStore"
      and ev = "newExpressionEvaluator contactRecord" and s = emptyState
      and store = "accountStore 0"]
  from t have a: "evaluate (evaluatingHost accountStore) (newExpressionEvaluator contactRecord)
     ?e emptyState =
     (False,
      logMessage
        (ConsoleWarn ''Expression contains related fields and cannot be evaluated synchronously:'')
        emptyState)"
    by (rule conjunct1)
  from t st ag
  have "fst (createDataObjectAsync (evaluatingHost accountStore) (extractFieldReferences ?e)
               emptyData (newExpressionEvaluator contactRecord, emptyState)) =
          resolvedData (accountStore 0) (ev_record (newExpressionEvaluator contactRecord))
            (extractFieldReferences ?e)"
    and "fst (evaluateAsync (evaluatingHost accountStore) ?e
               (newExpressionEvaluator contactRecord, emptyState)) =
          evalExpression (evaluatingHost accountStore) ?e
            (resolvedData (accountStore 0) (ev_record (newExpressionEvaluator contactRecord))
               (extractFieldReferences ?e))
            (ev_record (newExpressionEvaluator contactRecord))"
    by blast+
  then have b: "fst (createDataObjectAsync (evaluatingHost accountStore) [''parentcustomerid.name'']
               emptyData (newExpressionEvaluator contactRecord, emptyState)) =
          \<lparr>dataOwn = [''parentcustomerid.name'' \<mapsto> JStr ''Contoso''], dataProto = None\<rparr>"
    and c: "fst (evaluateAsync (evaluatingHost accountStore) ?e
               (newExpressionEvaluator contactRecord, emptyState))"
    unfolding refs
    by (simp_all add: rd newExpressionEvaluator_def evaluatingHost_def hostWith_def exampleEval_def)
  from ex a b c show ?thesis by (intro conjI)
qed

text \<open>
  Claim C9: when the cache has no completed record for a key and the fetch for it fails,
  \<open>retrieveRecordWithCache\<close> fails, after the one fetch it makes, and the key is no longer
  in the cache: neither the loading marker the call has set nor one it has found there
  stays behind. The next call for the key fetches again.
\<close>

theorem C9_failed_fetch:
  assumes "cachedRecord (recordCache s (cacheKeyOf entityName recordId)) = None"
    and "retrieveRecord h (length (fetchLog s)) (JStr entityName) (JStr recordId) = None"
  shows "fst (retrieveRecordWithCache h entityName recordId retryCount s) = Inl FetchFailed \<and>
         recordCache (snd (retrieveRecordWithCache h entityName recordId retryCount s))
           (cacheKeyOf entityName recordId) = None \<and>
         fetchLog (snd (retrieveRecordWithCache h entityName recordId retryCount s)) =
           fetchLog s @ [(JStr entityName, JStr recordId)] \<and>
         fetchLog (snd (retrieveRecordWithCache h entityName recordId 0
                          (snd (retrieveRecordWithCache h entityName recordId retryCount s)))) =
           fetchLog s @ [(JStr entityName, JStr recordId), (JStr entityName, JStr recordId)]"
proof -
  let ?t = "snd (retrieveRecordWithCache h entityName recordId retryCount s)"
  note m = retrieve_miss [OF assms(1), of h retryCount]
  with assms(2) have gone: "recordCache ?t (cacheKeyOf entityName recordId) = None" by simp
  then have "cachedRecord (recordCache ?t (cacheKeyOf entityName recordId)) = None" by simp
  from retrieve_miss [OF this, of h 0] m assms(2) gone show ?thesis by simp
qed

theorem C9_failed_fetch_witness:
  "cachedRecord (recordCache loadingState (cacheKeyOf ''account'' ''a1'')) = None \<and>
   retrieveRecord (hostWith failingStore) (length (fetchLog loadingState)) (JStr ''account'') (JStr ''a1'') = None \<and>
   cachedLoading (recordCache loadingState ''account:a1'') \<and>
   fst (retrieveRecordWithCache (hostWith failingStore) ''account'' ''a1'' 0 loadingState) = Inl FetchFailed \<and>
   recordCache (snd (retrieveRecordWithCache (hostWith failingStore) ''account'' ''a1'' 0 loadingState))
     ''account:a1'' = None"
  using C9_failed_fetch [of loadingState "''account''" "''a1''" "hostWith failingStore" 0]
  by (simp add: loadingState_def cacheKeyOf_def example_defs)

text \<open>
  Claim C10: \<open>retrieveRecordWithCache\<close> never assigns a cache entry under a key that is
  not yet in \<open>fetchedRecordKeys\<close>: it adds its key to the set first and writes under that
  key only. The same holds for a whole template resolution and for a whole pass over the
  configurations. So the post-save handler and the unmount cleanup, which delete the
  entries of all tracked keys, remove every entry that was written, and leave the others
  as they were before.
\<close>

theorem C10_writes_tracked:
  "writesTracked s (snd (retrieveRecordWithCache h entityName recordId retryCount s)) \<and>
   untrackedWrites (snd (retrieveRecordWithCache h entityName recordId retryCount s)) = untrackedWrites s \<and>
   cacheKeyOf entityName recordId \<in>
     fetchedRecordKeys (snd (retrieveRecordWithCache h entityName recordId retryCount s)) \<and>
   (k \<noteq> cacheKeyOf entityName recordId \<longrightarrow>
      recordCache (snd (retrieveRecordWithCache h entityName recordId retryCount s)) k = recordCache s k) \<and>
   writesTracked s (snd (asyncReplaceDynamicValues h rcd tx s)) \<and>
   writesTracked s (snd (snd (resolveSortedConfigs h rcd configs (evo, s)))) \<and>
   (writesTracked s t \<longrightarrow>
      recordCache (fst (handlePostSave (t, c))) k =
        (if k \<in> fetchedRecordKeys t then None else recordCache s k) \<and>
      recordCache (unmountCleanup t) k =
        (if k \<in> fetchedRecordKeys t then None else recordCache s k))"
proof -
  obtain res s1 where r: "retrieveRecordWithCache h entityName recordId retryCount s = (res, s1)"
    by (metis prod.exhaust)
  obtain out s2 where a: "asyncReplaceDynamicValues h rcd tx s = (out, s2)"
    by (metis prod.exhaust)
  obtain cs evo3 s3 where l: "resolveSortedConfigs h rcd configs (evo, s) = (cs, evo3, s3)"
    by (metis prod.exhaust)
  from retrieve_post [OF r] retrieve_tracked [OF r] asyncReplace_tracked [OF a]
    resolveSorted_tracked [OF l] r a l
  show ?thesis
    by (auto simp: handlePostSave_def unmountCleanup_def deleteFetchedKeys_clears)
qed

theorem C10_writes_tracked_witness:
  "writesTracked emptyState (snd (retrieveRecordWithCache (hostWith accountStore) ''account'' ''a1'' 0 emptyState)) \<and>
   cachedRecord (recordCache (snd (retrieveRecordWithCache (hostWith accountStore) ''account'' ''a1'' 0 emptyState))
     ''account:a1'') = Some accountRecord \<and>
   fetchedRecordKeys (snd (retrieveRecordWithCache (hostWith accountStore) ''account'' ''a1'' 0 emptyState)) =
     {''account:a1''} \<and>
   recordCache (fst (handlePostSave
       (snd (retrieveRecordWithCache (hostWith accountStore) ''account'' ''a1'' 0 emptyState), 0)))
     ''account:a1'' = None \<and>
   recordCache (unmountCleanup
       (snd (retrieveRecordWithCache (hostWith accountStore) ''account'' ''a1'' 0 emptyState)))
     ''account:a1'' = None"
proof -
  let ?t = "snd (retrieveRecordWithCache (hostWith accountStore) ''account'' ''a1'' 0 emptyState)"
  note c = C10_writes_tracked [of emptyState "hostWith accountStore" "''account''" "''a1''" 0
      "''account:a1''" None None "[]" None ?t 0]
  have k: "fetchedRecordKeys ?t = {''account:a1''}"
    by (simp add: cache_defs example_defs Let_def)
  have r: "cachedRecord (recordCache ?t ''account:a1'') = Some accountRecord"
    by (simp add: cache_defs example_defs Let_def)
  from c k r show ?thesis by simp
qed

end
